theory Spec2Isabelle
  imports Complex_Main "HOL-Library.AList"
begin

section \<open>Numbers and exceptions\<close>

text \<open>
  The burst automaton of \<^verbatim>\<open>tethne/analyze/corpus.py\<close> computes with mpmath numbers.
  An \<^verbatim>\<open>mpf\<close> is read as an exact real, \<^verbatim>\<open>mpf("inf")\<close> is \<open>PInf\<close>, and the complex
  number that \<^verbatim>\<open>mp.ln\<close> hands back for a negative argument is \<open>NonReal\<close> (its magnitude
  is not tracked: the only thing the program does with it is add to it and compare it).
\<close>

datatype mpval = Fin real | PInf | NonReal

datatype exn =
  ZeroDivisionError | ValueError | TypeError | IndexError | KeyError | AttributeError

text \<open>Addition: a complex summand makes the sum complex, an infinite one makes it infinite.\<close>

fun vadd :: "mpval \<Rightarrow> mpval \<Rightarrow> mpval" where
  "vadd NonReal _ = NonReal"
| "vadd _ NonReal = NonReal"
| "vadd PInf _ = PInf"
| "vadd _ PInf = PInf"
| "vadd (Fin a) (Fin b) = Fin (a + b)"

text \<open>The order \<^verbatim>\<open><\<close> on real values; comparing a complex number raises instead.\<close>

fun vlt :: "mpval \<Rightarrow> mpval \<Rightarrow> bool" where
  "vlt (Fin a) (Fin b) = (a < b)"
| "vlt (Fin a) PInf = True"
| "vlt _ _ = False"

text \<open>
  Python's \<^verbatim>\<open>min\<close> of a list: \<^verbatim>\<open>ValueError\<close> on the empty list; a list of one element is
  returned without any comparison; otherwise every element takes part in a comparison,
  which raises \<^verbatim>\<open>TypeError\<close> when one of them is complex. The first least element wins.
\<close>

definition py_min :: "mpval list \<Rightarrow> exn + mpval" where
  "py_min xs =
     (if xs = [] then Inl ValueError
      else if length xs = 1 then Inr (hd xs)
      else if NonReal \<in> set xs then Inl TypeError
      else Inr (foldl (\<lambda>m x. if vlt x m then x else m) (hd xs) (tl xs)))"

text \<open>
  Modelled from the spec: \<^verbatim>\<open>tethne.utilities.argmin\<close> is imported by the module and is
  not part of the sources at hand. The spec reads it as "select the state minimizing the
  cost, ties broken by the smallest index", failing with an exception when no minimum
  can be taken.
\<close>

definition argmin :: "mpval list \<Rightarrow> exn + nat" where
  "argmin xs =
     (case py_min xs of
        Inl e \<Rightarrow> Inl e
      | Inr m \<Rightarrow> Inr (length (takeWhile (\<lambda>x. x \<noteq> m) xs)))"

section \<open>The forward pass of the burst automaton\<close>

text \<open>
  \<^verbatim>\<open>alpha(i) = mpf(n/T) * mpf(s**i)\<close>: the division raises \<^verbatim>\<open>ZeroDivisionError\<close> when the
  gaps sum to zero.
\<close>

definition alpha :: "real list \<Rightarrow> real \<Rightarrow> nat \<Rightarrow> exn + real" where
  "alpha X s i =
     (if sum_list X = 0 then Inl ZeroDivisionError
      else Inr (real (length X) / sum_list X * s ^ i))"

text \<open>
  \<^verbatim>\<open>tau(i, j)\<close>, the price of moving from state \<open>i\<close> up to state \<open>j\<close>. It is only called
  while a cell is computed, hence with \<open>n \<ge> 1\<close>.
\<close>

definition tau :: "real list \<Rightarrow> real \<Rightarrow> nat \<Rightarrow> nat \<Rightarrow> mpval" where
  "tau X gamma i j =
     (if j > i then Fin (real (j - i) * gamma * ln (real (length X))) else Fin 0)"

text \<open>\<^verbatim>\<open>f(j, x) = alpha(j) * exp(-1 * alpha(j) * x)\<close>.\<close>

definition f_density :: "real list \<Rightarrow> real \<Rightarrow> nat \<Rightarrow> real \<Rightarrow> exn + real" where
  "f_density X s j x =
     (case alpha X s j of
        Inl e \<Rightarrow> Inl e
      | Inr a \<Rightarrow> Inr (a * exp (- 1 * a * x)))"

text \<open>
  \<^verbatim>\<open>mpf(-1) * mp.ln(v)\<close>: the logarithm of zero is minus infinity, the logarithm of a
  negative number is complex.
\<close>

definition neg_ln :: "real \<Rightarrow> mpval" where
  "neg_ln v = (if 0 < v then Fin (- ln v) else if v = 0 then PInf else NonReal)"

text \<open>
  The inner function \<^verbatim>\<open>C(j, t)\<close>. It reads column \<open>t - 1\<close> of the table \<^verbatim>\<open>C_values\<close> as that
  table is at the moment of the call.
\<close>

definition C_cell ::
  "real list \<Rightarrow> real \<Rightarrow> real \<Rightarrow> int \<Rightarrow> mpval list list \<Rightarrow> nat \<Rightarrow> nat \<Rightarrow> exn + mpval" where
  "C_cell X s gamma k C_values j t =
     (if j = 0 \<and> t = 0 then Inr (Fin 0)
      else if t = 0 then Inr PInf
      else
        (case py_min (map (\<lambda>l. vadd (C_values ! l ! (t - 1)) (tau X gamma l j)) [0..<nat k]) of
           Inl e \<Rightarrow> Inl e
         | Inr C_tau \<Rightarrow>
             (case f_density X s j (X ! t) of
                Inl e \<Rightarrow> Inl e
              | Inr v \<Rightarrow> Inr (vadd (neg_ln v) C_tau))))"

text \<open>
  One pass of the loop body: \<^verbatim>\<open>try: C_values[j][t] = C(j,t)\<close>, and on any exception
  \<^verbatim>\<open>C_values[j][t] = mpf("inf")\<close>.
\<close>

definition set_cell :: "mpval list list \<Rightarrow> nat \<Rightarrow> nat \<Rightarrow> mpval \<Rightarrow> mpval list list" where
  "set_cell tbl j t v = tbl[j := (tbl ! j)[t := v]]"

definition fill_cell ::
  "real list \<Rightarrow> real \<Rightarrow> real \<Rightarrow> int \<Rightarrow> nat \<times> nat \<Rightarrow> mpval list list \<Rightarrow> mpval list list" where
  "fill_cell X s gamma k c tbl =
     set_cell tbl (fst c) (snd c)
       (case C_cell X s gamma k tbl (fst c) (snd c) of Inl e \<Rightarrow> PInf | Inr v \<Rightarrow> v)"

text \<open>
  The table starts as \<open>k\<close> rows of \<open>len(X)\<close> zeros and is filled with \<open>j\<close> in the outer
  loop and \<open>t\<close> in the inner loop.
\<close>

definition cell_order :: "real list \<Rightarrow> int \<Rightarrow> (nat \<times> nat) list" where
  "cell_order X k = List.product [0..<nat k] [0..<length X]"

definition init_table :: "real list \<Rightarrow> int \<Rightarrow> mpval list list" where
  "init_table X k = replicate (nat k) (replicate (length X) (Fin 0))"

definition fill_table :: "real list \<Rightarrow> real \<Rightarrow> real \<Rightarrow> int \<Rightarrow> mpval list list" where
  "fill_table X s gamma k = fold (fill_cell X s gamma k) (cell_order X k) (init_table X k)"

text \<open>
  The state sequence: the argmin of every column; any exception there makes the result
  \<^verbatim>\<open>None\<close>.
\<close>

fun collect :: "(exn + 'a) list \<Rightarrow> exn + 'a list" where
  "collect [] = Inr []"
| "collect (r # rs) =
     (case r of
        Inl e \<Rightarrow> Inl e
      | Inr v \<Rightarrow> (case collect rs of Inl e \<Rightarrow> Inl e | Inr vs \<Rightarrow> Inr (v # vs)))"

definition forward :: "real list \<Rightarrow> real \<Rightarrow> real \<Rightarrow> int \<Rightarrow> nat list option" where
  "forward X s gamma k =
     (let C_values = fill_table X s gamma k in
      case collect (map (\<lambda>t. argmin (map (\<lambda>c. c ! t) C_values)) [0..<length X]) of
        Inl e \<Rightarrow> None
      | Inr states \<Rightarrow> Some states)"

section \<open>The recurrence of the specification\<close>

text \<open>
  The cost recurrence as the specification words it, to compare the table with:
  \<open>C(0,0) = 0\<close>, \<open>C(j,0) = +inf\<close> for \<open>j > 0\<close>, and for \<open>t > 0\<close> the emission cost of gap
  \<open>x\<^sub>t\<close> in state \<open>j\<close> plus the least, over all states \<open>l\<close>, of \<open>C(l,t-1)\<close> plus the
  transition cost from \<open>l\<close> to \<open>j\<close>.
\<close>

definition emission_cost :: "real list \<Rightarrow> real \<Rightarrow> nat \<Rightarrow> real \<Rightarrow> mpval" where
  "emission_cost X s j x =
     (let a = real (length X) / sum_list X * s ^ j in Fin (- ln (a * exp (- a * x))))"

definition transition_cost :: "real list \<Rightarrow> real \<Rightarrow> nat \<Rightarrow> nat \<Rightarrow> mpval" where
  "transition_cost X gamma l j =
     (if l < j then Fin (real (j - l) * gamma * ln (real (length X))) else Fin 0)"

fun vmin_list :: "mpval list \<Rightarrow> mpval" where
  "vmin_list [] = PInf"
| "vmin_list (x # xs) = (let m = vmin_list xs in if vlt m x then m else x)"

fun C_rec :: "real list \<Rightarrow> real \<Rightarrow> real \<Rightarrow> nat \<Rightarrow> nat \<Rightarrow> nat \<Rightarrow> mpval" where
  "C_rec X s gamma k j 0 = (if j = 0 then Fin 0 else PInf)"
| "C_rec X s gamma k j (Suc t) =
     vadd (emission_cost X s j (X ! Suc t))
          (vmin_list (map (\<lambda>l. vadd (C_rec X s gamma k l t) (transition_cost X gamma l j)) [0..<k]))"

section \<open>Exceptions as values\<close>

definition bind_exn :: "exn + 'a \<Rightarrow> ('a \<Rightarrow> exn + 'b) \<Rightarrow> exn + 'b" where
  "bind_exn m f = (case m of Inl e \<Rightarrow> Inl e | Inr v \<Rightarrow> f v)"

section \<open>The corpus\<close>

text \<open>
  The corpus is a collaborator; the module uses the keys of its date index, the
  distribution \<^verbatim>\<open>(years, values)\<close> of a feature in a feature set, and the feature list
  that \<^verbatim>\<open>top_features\<close> selects when the caller names no features.
\<close>

record 'f corpus =
  date_index :: "int list"
  feature_distribution :: "string \<Rightarrow> 'f \<Rightarrow> int list \<times> int list"
  top_features :: "string \<Rightarrow> 'f list"

type_synonym burst = "int list \<times> real list"

section \<open>Gaps between the occurrences of a feature\<close>

text \<open>
  One pass of the loop \<^verbatim>\<open>for year, N in zip(years, values)\<close> on the lists \<^verbatim>\<open>X_\<close> and
  \<^verbatim>\<open>dates\<close>. \<^verbatim>\<open>dates[-1]\<close> raises \<^verbatim>\<open>IndexError\<close> on the empty list.
\<close>

definition gap_step ::
  "real list \<times> int list \<Rightarrow> int \<times> int \<Rightarrow> exn + (real list \<times> int list)" where
  "gap_step st p =
     (let Xg = fst st; dates = snd st; year = fst p; N = snd p in
      if N = 0 then Inr (Xg, dates)
      else if dates = [] then Inl IndexError
      else if N > 1 then
        (if year = last dates + 1
         then Inr (Xg @ replicate (nat N) (1 / real_of_int N), dates @ replicate (nat N) year)
         else Inr (Xg @ [real_of_int (year - last dates)]
                      @ replicate (nat N - 1) (1 / real_of_int (N - 1)),
                   dates @ [year] @ replicate (nat N - 1) year))
      else Inr (Xg @ [real_of_int (year - last dates)], dates @ [year]))"

fun build_gaps ::
  "real list \<times> int list \<Rightarrow> (int \<times> int) list \<Rightarrow> exn + (real list \<times> int list)" where
  "build_gaps st [] = Inr st"
| "build_gaps st (p # ps) = bind_exn (gap_step st p) (\<lambda>st'. build_gaps st' ps)"

text \<open>The sequence handed to the decoder: \<^verbatim>\<open>[x*100 for x in X_]\<close>.\<close>

definition decoder_input :: "real list \<Rightarrow> real list" where
  "decoder_input Xg = map (\<lambda>x. x * 100) Xg"

text \<open>
  The gap sequence as the specification words it, from the previous date \<open>prev\<close> on:
  a pair of count 1 gives the gap to the previous date; a pair of count above 1 on a
  date that does not directly follow gives that gap and then \<open>count - 1\<close> gaps of
  \<open>1/(count - 1)\<close>; on the directly following date it gives \<open>count\<close> gaps of \<open>1/count\<close>;
  a pair of count zero gives nothing.
\<close>

fun spec_gaps :: "int \<Rightarrow> (int \<times> int) list \<Rightarrow> real list" where
  "spec_gaps prev [] = []"
| "spec_gaps prev ((date, count) # rest) =
     (if count = 1 then real_of_int (date - prev) # spec_gaps date rest
      else if count > 1 \<and> date \<noteq> prev + 1
        then real_of_int (date - prev)
             # replicate (nat (count - 1)) (1 / real_of_int (count - 1)) @ spec_gaps date rest
      else if count > 1 \<and> date = prev + 1
        then replicate (nat count) (1 / real_of_int count) @ spec_gaps date rest
      else spec_gaps prev rest)"

text \<open>The dates that the loop appends: one per generated gap.\<close>

fun occ_dates :: "(int \<times> int) list \<Rightarrow> int list" where
  "occ_dates [] = []"
| "occ_dates ((year, N) # rest) =
     (if N = 0 then [] else if N > 1 then replicate (nat N) year else [year]) @ occ_dates rest"

section \<open>Binning the states by date\<close>

text \<open>
  Modelled from the spec: \<^verbatim>\<open>tethne.utilities.mean\<close> is imported by the module and is not
  part of the sources at hand; the spec reads it as the arithmetic mean. It is only
  applied to the buckets of the dates met, none of which is empty.
\<close>

definition mean :: "nat list \<Rightarrow> real" where
  "mean vs = real (sum_list vs) / real (length vs)"

text \<open>
  \<^verbatim>\<open>A = defaultdict(list)\<close> is a list of the keys met so far and a function that is \<open>[]\<close>
  off those keys; \<^verbatim>\<open>A[dates[i]].append(st[i])\<close> is one step.
\<close>

definition bin_step ::
  "int list \<Rightarrow> nat list \<Rightarrow> nat \<Rightarrow> int list \<times> (int \<Rightarrow> nat list) \<Rightarrow> int list \<times> (int \<Rightarrow> nat list)" where
  "bin_step dates st i acc =
     (let keys = fst acc; A = snd acc; d = dates ! i in
      (if d \<in> set keys then keys else keys @ [d], A(d := A d @ [st ! i])))"

definition bin_by_date ::
  "int list \<Rightarrow> nat list \<Rightarrow> nat \<Rightarrow> int list \<times> (int \<Rightarrow> nat list)" where
  "bin_by_date dates st n = fold (bin_step dates st) [0..<n] ([], \<lambda>d. [])"

text \<open>
  Lines 315 to 327: bin, average (and divide by \<open>k\<close> when normalizing), sort the keys and
  drop the first. \<^verbatim>\<open>dates[i]\<close> raises when the date list is shorter than \<^verbatim>\<open>X_\<close>, the
  division raises when \<open>k = 0\<close>.
\<close>

definition aggregate :: "nat list \<Rightarrow> int list \<Rightarrow> nat \<Rightarrow> int \<Rightarrow> bool \<Rightarrow> exn + burst" where
  "aggregate st dates n k normalize' =
     (if length dates < n then Inl IndexError
      else if normalize' \<and> k = 0 \<and> 0 < n then Inl ZeroDivisionError
      else
        (let keys = fst (bin_by_date dates st n);
             A = snd (bin_by_date dates st n);
             score = (\<lambda>d. if normalize' then mean (A d) / real_of_int k else mean (A d));
             D = sort keys
         in Inr (tl D, map score (tl D))))"

section \<open>Burstness of one feature\<close>

text \<open>
  The date list of a call: the list object passed in, or a fresh one-element list with
  the least date of the corpus minus one. A missing corpus has no attributes.
\<close>

definition start_dates :: "'f corpus option \<Rightarrow> int list option \<Rightarrow> exn + int list" where
  "start_dates corpus dates =
     (case dates of
        Some ds \<Rightarrow> Inr ds
      | None \<Rightarrow>
          (case corpus of
             None \<Rightarrow> Inl AttributeError
           | Some c \<Rightarrow>
               if date_index c = [] then Inl ValueError
               else Inr [Min (set (date_index c)) - 1]))"

definition the_distribution ::
  "'f corpus option \<Rightarrow> string \<Rightarrow> 'f \<Rightarrow> (int list \<times> int list) option
     \<Rightarrow> exn + (int list \<times> int list)" where
  "the_distribution corpus featureset_name feature feature_distribution' =
     (case feature_distribution' of
        Some fd \<Rightarrow> Inr fd
      | None \<Rightarrow>
          (case corpus of
             None \<Rightarrow> Inl AttributeError
           | Some c \<Rightarrow> Inr (feature_distribution c featureset_name feature)))"

text \<open>
  \<^verbatim>\<open>feature_burstness\<close>. The result is \<^verbatim>\<open>None\<close> or the pair \<^verbatim>\<open>(dates, scores)\<close>; next to it
  stands the content of the date list when the call returns, since the loop appends to
  the list it was given.
\<close>

definition feature_burstness ::
  "'f corpus option \<Rightarrow> string \<Rightarrow> 'f \<Rightarrow> int \<Rightarrow> bool \<Rightarrow> real \<Rightarrow> real \<Rightarrow> int list option
     \<Rightarrow> (int list \<times> int list) option \<Rightarrow> exn + (burst option \<times> int list)" where
  "feature_burstness corpus featureset_name feature k normalize' s gamma dates fd =
     bind_exn (start_dates corpus dates) (\<lambda>dates0.
     bind_exn (the_distribution corpus featureset_name feature fd) (\<lambda>yv.
     bind_exn (build_gaps ([1], dates0) (zip (fst yv) (snd yv))) (\<lambda>g.
       (case forward (decoder_input (fst g)) s gamma k of
          None \<Rightarrow> Inr (None, snd g)
        | Some st \<Rightarrow>
            bind_exn (aggregate st (snd g) (length (fst g)) k normalize')
              (\<lambda>b. Inr (Some b, snd g))))))"

section \<open>Burstness of many features\<close>

text \<open>
  A Python dict is a list of items in insertion order; \<^verbatim>\<open>d[key] = v\<close> is \<open>AList.update\<close>.
  \<^verbatim>\<open>feature_burstness_wrapper\<close> hands the one date list of its package to every call.
\<close>

fun wrapper_loop ::
  "string \<Rightarrow> int \<Rightarrow> bool \<Rightarrow> real \<Rightarrow> real \<Rightarrow> ('f \<times> burst option) list \<Rightarrow> int list
     \<Rightarrow> ('f \<times> (int list \<times> int list)) list \<Rightarrow> exn + (('f \<times> burst option) list \<times> int list)" where
  "wrapper_loop fs k normalize' s gamma B dates [] = Inr (B, dates)"
| "wrapper_loop fs k normalize' s gamma B dates (p # ps) =
     bind_exn (feature_burstness None fs (fst p) k normalize' s gamma (Some dates) (Some (snd p)))
       (\<lambda>r. wrapper_loop fs k normalize' s gamma (AList.update (fst p) (fst r) B) (snd r) ps)"

definition feature_burstness_wrapper ::
  "nat \<times> int list \<times> (int list \<times> int list) list \<times> string \<times> 'f list \<times> int \<times> bool \<times> real \<times> real
     \<Rightarrow> exn + (('f \<times> burst option) list \<times> int list)" where
  "feature_burstness_wrapper param =
     (case param of (nr, dates, feature_distributions, fs, features, k, normalize', s, gamma) \<Rightarrow>
        wrapper_loop fs k normalize' s gamma [] dates (zip features feature_distributions))"

text \<open>The slice \<^verbatim>\<open>features[i*len_per_worker:(i+1)*len_per_worker]\<close>.\<close>

definition chunk :: "'a list \<Rightarrow> nat \<Rightarrow> nat \<Rightarrow> 'a list" where
  "chunk features len_per_worker i = take len_per_worker (drop (i * len_per_worker) features)"

definition chunks :: "'a list \<Rightarrow> nat \<Rightarrow> 'a list list" where
  "chunks features workers =
     map (chunk features (length features div workers)) [0..<workers + 1]"

text \<open>The single pass: a dict comprehension over the features.\<close>

fun single_pass ::
  "'f corpus \<Rightarrow> string \<Rightarrow> int \<Rightarrow> bool \<Rightarrow> real \<Rightarrow> real \<Rightarrow> ('f \<times> burst option) list \<Rightarrow> 'f list
     \<Rightarrow> exn + ('f \<times> burst option) list" where
  "single_pass c fs k normalize' s gamma B [] = Inr B"
| "single_pass c fs k normalize' s gamma B (feature # rest) =
     bind_exn (feature_burstness (Some c) fs feature k normalize' s gamma None None)
       (\<lambda>r. single_pass c fs k normalize' s gamma (AList.update feature (fst r) B) rest)"

text \<open>\<^verbatim>\<open>B.update(tmp_B)\<close>.\<close>

definition dict_update :: "('a \<times> 'b) list \<Rightarrow> ('a \<times> 'b) list \<Rightarrow> ('a \<times> 'b) list" where
  "dict_update B tmp_B = fold (\<lambda>p. AList.update (fst p) (snd p)) tmp_B B"

text \<open>
  \<^verbatim>\<open>burstness\<close>. With \<open>workers = 1\<close> the features are decoded in one pass with the
  caller's \<open>s\<close> and \<open>gamma\<close>. Otherwise \<open>workers + 1\<close> packages are built, each with its
  chunk of features, their distributions, the padded date list, and the constants 1.1
  and 1 for \<open>s\<close> and \<open>gamma\<close>; the pool pickles each package on its own, so each one works
  on a date list of its own, and hands the results back in the order of the packages.
  \<^verbatim>\<open>len(features)/workers\<close> raises for \<open>workers = 0\<close>, \<^verbatim>\<open>Pool(workers)\<close> for \<open>workers < 0\<close>.
\<close>

definition burstness ::
  "'f corpus \<Rightarrow> string \<Rightarrow> 'f list \<Rightarrow> int \<Rightarrow> int \<Rightarrow> bool \<Rightarrow> real \<Rightarrow> real
     \<Rightarrow> exn + ('f \<times> burst option) list" where
  "burstness c fs features0 k workers normalize' s gamma =
     (let features = (if features0 = [] then top_features c fs else features0) in
      if workers = 1 then single_pass c fs k normalize' s gamma [] features
      else if workers = 0 then Inl ZeroDivisionError
      else if date_index c = [] then Inl ValueError
      else if workers < 0 then Inl ValueError
      else
        (let dates = [Min (set (date_index c)) - 1];
             params = map (\<lambda>i. (i, dates,
                                 map (feature_distribution c fs)
                                     (chunk features (length features div nat workers) i),
                                 fs, chunk features (length features div nat workers) i,
                                 k, normalize', 11/10, 1))
                          [0..<nat workers + 1]
         in bind_exn (collect (map feature_burstness_wrapper params))
              (\<lambda>Bs. Inr (fold (\<lambda>tmp_B B. dict_update B (fst tmp_B)) Bs []))))"

section \<open>Sigma\<close>

text \<open>
  A time slice of the graph collection: its nodes and their betweenness centrality
  (\<^verbatim>\<open>nx.betweenness_centrality\<close>, which is never negative). The collection has its slices
  in order, the lookup from node labels to node indices, and its node labels.
\<close>

record slice_graph =
  g_nodes :: "nat list"
  betweenness :: "nat \<Rightarrow> real"

record 'f graph_collection =
  gc_items :: "(int \<times> slice_graph) list"
  node_lookup :: "'f \<Rightarrow> nat option"
  gc_nodes :: "'f list"

text \<open>\<^verbatim>\<open>dict(zip(*burst))\<close>; unpacking \<^verbatim>\<open>None\<close> raises.\<close>

definition burst_dict :: "burst option \<Rightarrow> exn + (int \<times> real) list" where
  "burst_dict burst =
     (case burst of
        None \<Rightarrow> Inl TypeError
      | Some b \<Rightarrow> Inr (fold (\<lambda>p. AList.update (fst p) (snd p)) (zip (fst b) (snd b)) []))"

text \<open>One pass of the loop over \<^verbatim>\<open>B.items()\<close> within a slice.\<close>

definition sigma_step ::
  "'f graph_collection \<Rightarrow> int \<Rightarrow> slice_graph \<Rightarrow> 'f \<times> burst option \<Rightarrow> (nat \<times> real) list
     \<Rightarrow> exn + (nat \<times> real) list" where
  "sigma_step G key graph item sg =
     bind_exn (burst_dict (snd item)) (\<lambda>burst.
       (case node_lookup G (fst item) of
          None \<Rightarrow> Inl KeyError
        | Some n \<Rightarrow>
            if n \<in> set (g_nodes graph) \<and> key \<in> dom (map_of burst)
            then Inr (AList.update n
                        ((betweenness graph n + 1) powr the (map_of burst key) - 1) sg)
            else Inr sg))"

fun sigma_slice ::
  "'f graph_collection \<Rightarrow> int \<Rightarrow> slice_graph \<Rightarrow> (nat \<times> real) list \<Rightarrow> ('f \<times> burst option) list
     \<Rightarrow> exn + (nat \<times> real) list" where
  "sigma_slice G key graph sg [] = Inr sg"
| "sigma_slice G key graph sg (item # items) =
     bind_exn (sigma_step G key graph item sg) (\<lambda>sg'. sigma_slice G key graph sg' items)"

text \<open>The dict \<^verbatim>\<open>Sigma\<close> of lines 394 to 415: for every slice key the sigma values.\<close>

fun sigma_slices ::
  "'f graph_collection \<Rightarrow> ('f \<times> burst option) list \<Rightarrow> (int \<times> (nat \<times> real) list) list
     \<Rightarrow> (int \<times> slice_graph) list \<Rightarrow> exn + (int \<times> (nat \<times> real) list) list" where
  "sigma_slices G B Sigma' [] = Inr Sigma'"
| "sigma_slices G B Sigma' (kg # rest) =
     bind_exn (sigma_slice G (fst kg) (snd kg) [] B)
       (\<lambda>sg. sigma_slices G B (AList.update (fst kg) sg Sigma') rest)"

text \<open>
  \<^verbatim>\<open>sigma\<close> up to the dict \<^verbatim>\<open>Sigma\<close>: an empty or missing \<open>B\<close> is computed by \<^verbatim>\<open>burstness\<close> over
  the nodes of the collection first.
\<close>

definition sigma ::
  "'f graph_collection \<Rightarrow> 'f corpus \<Rightarrow> string \<Rightarrow> ('f \<times> burst option) list option
     \<Rightarrow> int \<Rightarrow> int \<Rightarrow> bool \<Rightarrow> real \<Rightarrow> real \<Rightarrow> exn + (int \<times> (nat \<times> real) list) list" where
  "sigma G c fs B k workers normalize' s gamma =
     bind_exn (if B = None \<or> B = Some [] then burstness c fs (gc_nodes G) k workers normalize' s gamma
               else Inr (the B))
       (\<lambda>B'. sigma_slices G B' [] (gc_items G))"

section \<open>Auxiliary notions\<close>

text \<open>
  A well-formed item of the burst map: a series of distinct dates with as many scores,
  for a feature that the collection knows.
\<close>

definition wf_item :: "'f graph_collection \<Rightarrow> 'f \<times> burst option \<Rightarrow> bool" where
  "wf_item G item =
     (\<exists>dates scores n. snd item = Some (dates, scores) \<and> distinct dates
        \<and> length dates = length scores \<and> node_lookup G (fst item) = Some n)"

text \<open>
  The item gives node \<open>n\<close> the value \<open>v\<close> in the slice: its feature is node \<open>n\<close>, the node
  is in the graph of the slice, and the series has a score for the key of the slice.
\<close>

definition hits ::
  "'f graph_collection \<Rightarrow> int \<Rightarrow> slice_graph \<Rightarrow> 'f \<times> burst option \<Rightarrow> nat \<Rightarrow> real \<Rightarrow> bool" where
  "hits G key graph item n v =
     (\<exists>dates scores i. snd item = Some (dates, scores) \<and> node_lookup G (fst item) = Some n
        \<and> n \<in> set (g_nodes graph) \<and> i < length dates \<and> dates ! i = key
        \<and> v = (betweenness graph n + 1) powr (scores ! i) - 1)"

text \<open>
  Two slices with the one node 0 of centrality 0.2, and a burst series with the scores 0
  and 0.5.
\<close>

definition example_graphs :: "string graph_collection" where
  "example_graphs =
     \<lparr>gc_items = [(2000, \<lparr>g_nodes = [0], betweenness = (\<lambda>n. 1 / 5)\<rparr>),
                  (2001, \<lparr>g_nodes = [0], betweenness = (\<lambda>n. 1 / 5)\<rparr>)],
      node_lookup = (\<lambda>f. if f = ''x'' then Some 0 else None),
      gc_nodes = [''x'']\<rparr>"

definition example_bursts :: "(string \<times> burst option) list" where
  "example_bursts = [(''x'', Some ([2000, 2001], [0, 1 / 2]))]"


text \<open>The dates that a run of calls appends, one distribution after the other.\<close>

definition appended_dates :: "(int list \<times> int list) list \<Rightarrow> int list" where
  "appended_dates fds = concat (map (\<lambda>fd. occ_dates (zip (fst fd) (snd fd))) fds)"

text \<open>A corpus with the one date 2000, on which every feature occurs once.\<close>

definition example_corpus :: "string corpus" where
  "example_corpus =
     \<lparr>date_index = [2000], feature_distribution = (\<lambda>fs f. ([2000], [1])),
      top_features = (\<lambda>fs. [])\<rparr>"


text \<open>The table has \<open>m\<close> rows of \<open>n\<close> cells.\<close>

definition dims :: "mpval list list \<Rightarrow> nat \<Rightarrow> nat \<Rightarrow> bool" where
  "dims tbl m n = (length tbl = m \<and> (\<forall>i < m. length (tbl ! i) = n))"

text \<open>The table as it is when the loop reaches cell \<open>(j, t)\<close>.\<close>

definition table_before :: "real list \<Rightarrow> real \<Rightarrow> real \<Rightarrow> int \<Rightarrow> nat \<Rightarrow> nat \<Rightarrow> mpval list list" where
  "table_before X s gamma k j t =
     fold (fill_cell X s gamma k) (takeWhile (\<lambda>c. c \<noteq> (j, t)) (cell_order X k)) (init_table X k)"

section \<open>Shape of the cost table\<close>

lemma length_set_cell: "length (set_cell tbl j t v) = length tbl"
  by (simp add: set_cell_def)

lemma length_fill_cell: "length (fill_cell X s gamma k c tbl) = length tbl"
  by (simp add: fill_cell_def length_set_cell)

lemma length_fold_fill:
  "length (fold (fill_cell X s gamma k) cs tbl) = length tbl"
  by (induction cs arbitrary: tbl) (simp_all add: length_fill_cell)

lemma length_fill_table: "length (fill_table X s gamma k) = nat k"
  by (simp add: fill_table_def length_fold_fill init_table_def)

lemma collect_replicate: "collect (replicate n (Inr v)) = Inr (replicate n v)"
  by (induction n) simp_all

lemma argmin_single: "argmin [x] = Inr 0"
  by (simp add: argmin_def py_min_def)

lemma forward_one_state: "forward X s gamma 1 = Some (replicate (length X) 0)"
proof -
  obtain r where r: "fill_table X s gamma 1 = [r]"
    using length_fill_table [of X s gamma 1]
    by (cases "fill_table X s gamma 1") (auto simp: length_Suc_conv)
  have "map (\<lambda>t. argmin (map (\<lambda>c. c ! t) [r])) [0..<length X]
        = replicate (length X) (Inr 0)"
    by (simp add: argmin_single map_replicate_const)
  then show ?thesis
    by (simp add: forward_def r collect_replicate)
qed

lemma dims_init: "dims (init_table X k) (nat k) (length X)"
  by (simp add: dims_def init_table_def)

lemma dims_set_cell: "dims tbl m n \<Longrightarrow> dims (set_cell tbl j t v) m n"
  by (cases "j < length tbl") (auto simp: dims_def set_cell_def nth_list_update)

lemma dims_fill_cell: "dims tbl m n \<Longrightarrow> dims (fill_cell X s gamma k c tbl) m n"
  by (simp add: fill_cell_def dims_set_cell)

lemma dims_fold_fill: "dims tbl m n \<Longrightarrow> dims (fold (fill_cell X s gamma k) cs tbl) m n"
  by (induction cs arbitrary: tbl) (simp_all add: dims_fill_cell)

lemma get_set_cell:
  "dims tbl m n \<Longrightarrow> j' < m \<Longrightarrow> t' < n \<Longrightarrow>
   set_cell tbl j t v ! j' ! t' = (if j = j' \<and> t = t' then v else tbl ! j' ! t')"
  by (cases "j < length tbl") (auto simp: dims_def set_cell_def nth_list_update)

lemma fold_fill_other:
  "dims tbl m n \<Longrightarrow> j < m \<Longrightarrow> t < n \<Longrightarrow> (j, t) \<notin> set cs \<Longrightarrow>
   fold (fill_cell X s gamma k) cs tbl ! j ! t = tbl ! j ! t"
proof (induction cs arbitrary: tbl)
  case Nil
  then show ?case by simp
next
  case (Cons c cs)
  have d: "dims (fill_cell X s gamma k c tbl) m n"
    using Cons.prems(1) by (rule dims_fill_cell)
  have ne: "\<not> (fst c = j \<and> snd c = t)"
    using Cons.prems(4) by auto
  have "fold (fill_cell X s gamma k) (c # cs) tbl ! j ! t
        = fill_cell X s gamma k c tbl ! j ! t"
    using Cons.IH [OF d Cons.prems(2,3)] Cons.prems(4) by simp
  also have "\<dots> = tbl ! j ! t"
    using ne by (auto simp: fill_cell_def get_set_cell [OF Cons.prems(1-3)])
  finally show ?case .
qed

lemma fold_fill_at:
  "dims tbl m n \<Longrightarrow> j < m \<Longrightarrow> t < n \<Longrightarrow> distinct cs \<Longrightarrow> (j, t) \<in> set cs \<Longrightarrow>
   fold (fill_cell X s gamma k) cs tbl ! j ! t =
     (case C_cell X s gamma k
             (fold (fill_cell X s gamma k) (takeWhile (\<lambda>c. c \<noteq> (j, t)) cs) tbl) j t of
        Inl e \<Rightarrow> PInf | Inr v \<Rightarrow> v)"
proof (induction cs arbitrary: tbl)
  case Nil
  then show ?case by simp
next
  case (Cons c cs)
  have d: "dims (fill_cell X s gamma k c tbl) m n"
    using Cons.prems(1) by (rule dims_fill_cell)
  show ?case
  proof (cases "c = (j, t)")
    case True
    then have "(j, t) \<notin> set cs" using Cons.prems(4) by simp
    then have "fold (fill_cell X s gamma k) (c # cs) tbl ! j ! t
               = fill_cell X s gamma k c tbl ! j ! t"
      using fold_fill_other [OF d Cons.prems(2,3)] by simp
    also have "\<dots> = (case C_cell X s gamma k tbl j t of Inl e \<Rightarrow> PInf | Inr v \<Rightarrow> v)"
      using True by (simp add: fill_cell_def get_set_cell [OF Cons.prems(1-3)])
    finally show ?thesis
      using True by simp
  next
    case False
    then have "(j, t) \<in> set cs" "distinct cs" using Cons.prems(4,5) by auto
    then show ?thesis
      using Cons.IH [OF d Cons.prems(2,3)] False by simp
  qed
qed

lemma cell_order_distinct: "distinct (cell_order X k)"
  by (simp add: cell_order_def distinct_product)

lemma cell_order_mem: "j < nat k \<Longrightarrow> t < length X \<Longrightarrow> (j, t) \<in> set (cell_order X k)"
  by (simp add: cell_order_def)

section \<open>Failure of one cell\<close>

text \<open>
  C8. Every cell of the finished table holds what \<^verbatim>\<open>C(j, t)\<close> returned when the loop
  reached it, or infinite cost when that call raised: a raising cell is replaced by
  \<open>PInf\<close>, the table keeps its \<open>k\<close> rows of \<open>len(X)\<close> cells, and every other cell is
  still computed.
\<close>

theorem forward_cell_failure_is_local:
  assumes "j < nat k" and "t < length X"
  shows "fill_table X s gamma k ! j ! t =
           (case C_cell X s gamma k (table_before X s gamma k j t) j t of
              Inl e \<Rightarrow> PInf | Inr v \<Rightarrow> v)
         \<and> length (fill_table X s gamma k) = nat k
         \<and> (\<forall>r \<in> set (fill_table X s gamma k). length r = length X)"
proof -
  have "dims (fill_table X s gamma k) (nat k) (length X)"
    unfolding fill_table_def by (rule dims_fold_fill [OF dims_init])
  then show ?thesis
    using fold_fill_at [OF dims_init assms cell_order_distinct cell_order_mem [OF assms]]
    by (auto simp: fill_table_def table_before_def dims_def in_set_conv_nth)
qed

theorem forward_cell_failure_is_local_witness:
  "(0::nat) < nat 1 \<and> (1::nat) < length [0::real, 0]
   \<and> C_cell [0, 0] (11/10) 1 1 (table_before [0, 0] (11/10) 1 1 0 1) 0 1
       = Inl ZeroDivisionError
   \<and> fill_table [0, 0] (11/10) 1 1 ! 0 ! 1 = PInf"
  using forward_cell_failure_is_local [of 0 1 1 "[0, 0]" "11/10" 1]
  by (simp add: C_cell_def py_min_def f_density_def alpha_def)

section \<open>The table against the recurrence\<close>

lemma upt_0_2: "[0..<2] = [0, Suc 0]"
  by (simp add: upt_rec)

lemma upt_0_3: "[0..<3] = [0, Suc 0, 2]"
  by (simp add: upt_rec numeral_3_eq_3)

lemma ln_bound: "1 \<le> 11 / 10 - ln (11 / 10 :: real) + ln 3"
proof -
  have "ln (11 / 10 :: real) \<le> 11 / 10 - 1"
    by (rule ln_le_minus_one) simp
  moreover have "0 \<le> ln (3 :: real)" by simp
  ultimately show ?thesis by linarith
qed

lemma code_cell_0_2_value: "fill_table [1, 1, 1] (11/10) 1 2 ! 0 ! 2 = Fin 1"
  by (simp add: fill_table_def cell_order_def init_table_def upt_0_2 upt_0_3 fill_cell_def
        set_cell_def C_cell_def py_min_def f_density_def alpha_def tau_def neg_ln_def
        numeral_2_eq_2 numeral_3_eq_3)

lemma rec_cell_0_2_value: "C_rec [1, 1, 1] (11/10) 1 2 0 2 = Fin 2"
proof -
  have two: "(2::nat) = Suc (Suc 0)" by simp
  have e: "ln (11 / 10 * exp (- (11 / 10)) :: real) = ln (11 / 10) - 11 / 10"
    by (subst ln_mult_pos) simp_all
  have e': "ln (11 * exp (- (11 / 10)) / 10 :: real) = ln (11 / 10) - 11 / 10"
    using e by simp
  show ?thesis
    unfolding two
    using ln_bound
    by (simp add: upt_rec emission_cost_def transition_cost_def e' Let_def)
qed

text \<open>
  C3. With two states, gaps \<open>[1, 1, 1]\<close>, \<open>s = 1.1\<close> and \<open>gamma = 1\<close> the table holds
  cost 1 at state 0, time 2, where the recurrence gives 2: the table is filled row by
  row, so the cell read the still unwritten cell of state 1 at time 1 as the initial 0.
\<close>

theorem forward_table_breaks_recurrence:
  "fill_table [1, 1, 1] (11/10) 1 2 ! 0 ! 2 = Fin 1
   \<and> C_rec [1, 1, 1] (11/10) 1 2 0 2 = Fin 2"
  by (simp only: code_cell_0_2_value rec_cell_0_2_value simp_thms)

section \<open>The gaps that are built\<close>

lemma bind_exn_Inr [simp]: "bind_exn (Inr v) f = f v"
  by (simp add: bind_exn_def)

lemma bind_exn_Inl [simp]: "bind_exn (Inl e) f = Inl e"
  by (simp add: bind_exn_def)

lemma replicate_nat_Cons:
  "1 < N \<Longrightarrow> y # replicate (nat N - Suc 0) y = replicate (nat N) y"
  by (cases "nat N") auto

lemma gap_step_ok:
  assumes "dates \<noteq> []"
  shows "\<exists>G. gap_step (Xg, dates) (year, N) = Inr (Xg @ G, dates @ occ_dates [(year, N)])
             \<and> length G = length (occ_dates [(year, N)])"
  using assms by (auto simp: gap_step_def Let_def replicate_nat_Cons)

lemma build_gaps_ok:
  "dates \<noteq> [] \<Longrightarrow>
   \<exists>G. build_gaps (Xg, dates) ps = Inr (Xg @ G, dates @ occ_dates ps)
       \<and> length G = length (occ_dates ps)"
proof (induction ps arbitrary: Xg dates)
  case Nil
  then show ?case by simp
next
  case (Cons p ps)
  obtain year N where p: "p = (year, N)" by (cases p)
  obtain G where G: "gap_step (Xg, dates) (year, N) = Inr (Xg @ G, dates @ occ_dates [(year, N)])"
    and lG: "length G = length (occ_dates [(year, N)])"
    using gap_step_ok [OF Cons.prems] by blast
  have ne: "dates @ occ_dates [(year, N)] \<noteq> []" using Cons.prems by simp
  obtain G' where G': "build_gaps (Xg @ G, dates @ occ_dates [(year, N)]) ps
                       = Inr ((Xg @ G) @ G', (dates @ occ_dates [(year, N)]) @ occ_dates ps)"
    and lG': "length G' = length (occ_dates ps)"
    using Cons.IH [OF ne] by blast
  have "build_gaps (Xg, dates) (p # ps) = Inr (Xg @ (G @ G'), dates @ occ_dates (p # ps))"
    using G G' by (simp add: p)
  moreover have "length (G @ G') = length (occ_dates (p # ps))"
    using lG lG' by (simp add: p)
  ultimately show ?case by blast
qed

lemma build_gaps_spec:
  "dates \<noteq> [] \<Longrightarrow> \<forall>p \<in> set ps. 0 \<le> snd p \<Longrightarrow>
   build_gaps (Xg, dates) ps = Inr (Xg @ spec_gaps (last dates) ps, dates @ occ_dates ps)"
proof (induction ps arbitrary: Xg dates)
  case Nil
  then show ?case by simp
next
  case (Cons p ps)
  obtain year N where p: "p = (year, N)" by (cases p)
  have N: "0 \<le> N" using Cons.prems(2) by (simp add: p)
  have rest: "\<forall>p \<in> set ps. 0 \<le> snd p" using Cons.prems(2) by simp
  show ?case
  proof (cases "N = 0")
    case True
    then show ?thesis
      using Cons.IH [OF Cons.prems(1) rest, of Xg] by (simp add: p gap_step_def)
  next
    case False
    then have pos: "1 \<le> N" using N by simp
    define Xg' where "Xg' = fst (projr (gap_step (Xg, dates) p))"
    define dates' where "dates' = snd (projr (gap_step (Xg, dates) p))"
    have d': "dates' = dates @ (if N > 1 then replicate (nat N) year else [year])"
      using False Cons.prems(1) by (auto simp: dates'_def p gap_step_def Let_def replicate_nat_Cons)
    have ne: "dates' \<noteq> []" using Cons.prems(1) by (simp add: d')
    have l: "last dates' = year" using pos by (auto simp: d')
    have st: "gap_step (Xg, dates) p = Inr (Xg', dates')"
      using False Cons.prems(1) by (auto simp: Xg'_def dates'_def p gap_step_def Let_def)
    have x': "Xg' @ spec_gaps year ps = Xg @ spec_gaps (last dates) (p # ps)"
      using False pos Cons.prems(1)
      by (auto simp: Xg'_def p gap_step_def Let_def nat_diff_distrib)
    have "build_gaps (Xg, dates) (p # ps) = Inr (Xg' @ spec_gaps year ps, dates' @ occ_dates ps)"
      using Cons.IH [OF ne rest, of Xg'] st l by simp
    then show ?thesis
      using x' False by (simp add: d' p)
  qed
qed

section \<open>Scores of the date buckets\<close>

lemma bin_by_date_Suc:
  "bin_by_date dates st (Suc n) = bin_step dates st n (bin_by_date dates st n)"
  by (simp add: bin_by_date_def)

lemma bin_bucket:
  "snd (bin_by_date dates st n) d = map ((!) st) (filter (\<lambda>i. dates ! i = d) [0..<n])"
proof (induction n arbitrary: d)
  case 0
  then show ?case by (simp add: bin_by_date_def)
next
  case (Suc n)
  then show ?case by (simp add: bin_by_date_Suc bin_step_def Let_def)
qed

lemma bin_keys: "set (fst (bin_by_date dates st n)) = (\<lambda>i. dates ! i) ` {..<n}"
proof (induction n)
  case 0
  then show ?case by (simp add: bin_by_date_def)
next
  case (Suc n)
  then show ?case
    by (auto simp: bin_by_date_Suc bin_step_def Let_def lessThan_Suc)
qed

lemma sum_list_bounded:
  "\<forall>x \<in> set vs. x \<le> (b::nat) \<Longrightarrow> sum_list vs \<le> length vs * b"
  by (induction vs) auto

lemma mean_bounds:
  assumes "vs \<noteq> []" and "\<forall>x \<in> set vs. int x < k"
  shows "0 \<le> mean vs \<and> mean vs \<le> real_of_int k - 1"
proof -
  have "\<forall>x \<in> set vs. x \<le> nat (k - 1)" using assms(2) by auto
  then have "sum_list vs \<le> length vs * nat (k - 1)" by (rule sum_list_bounded)
  then have "real (sum_list vs) \<le> real (length vs) * real (nat (k - 1))"
    by (metis of_nat_le_iff of_nat_mult)
  moreover have "0 < real (length vs)" using assms(1) by simp
  moreover obtain x where "x \<in> set vs" using assms(1) by (cases vs) auto
  then have "1 \<le> k" using assms(2) by fastforce
  then have "real (nat (k - 1)) = real_of_int k - 1" by simp
  ultimately have "real (sum_list vs) / real (length vs) \<le> real_of_int k - 1"
    by (simp add: pos_divide_le_eq mult.commute)
  then show ?thesis by (simp add: mean_def)
qed

lemma normalized_scores_at:
  assumes "aggregate st dates n k True = Inr (D, scores)"
    and "length st = n"
    and "\<forall>x \<in> set st. int x < k"
    and "i < length D"
  shows "length scores = length D
         \<and> scores ! i
             = mean (map ((!) st) (filter (\<lambda>m. dates ! m = D ! i) [0..<n])) / real_of_int k
         \<and> 0 \<le> scores ! i
         \<and> scores ! i \<le> (real_of_int k - 1) / real_of_int k
         \<and> scores ! i \<noteq> 1"
proof -
  define keys where "keys = fst (bin_by_date dates st n)"
  define bucket where "bucket = map ((!) st) (filter (\<lambda>m. dates ! m = D ! i) [0..<n])"
  have ok: "\<not> length dates < n" "\<not> (k = 0 \<and> 0 < n)"
    using assms(1) by (auto simp: aggregate_def split: if_splits)
  have D: "D = tl (sort keys)"
    and sc: "scores = map (\<lambda>d. mean (snd (bin_by_date dates st n) d) / real_of_int k) D"
    using assms(1) ok by (auto simp: aggregate_def Let_def keys_def)
  have len: "length scores = length D" by (simp add: sc)
  have val: "scores ! i = mean bucket / real_of_int k"
    using assms(4) by (simp add: sc bin_bucket bucket_def)
  have "D ! i \<in> set D" using assms(4) by simp
  then have "D ! i \<in> set (sort keys)"
    unfolding D by (metis list.sel(2) list.set_sel(2) )
  then have "D ! i \<in> (\<lambda>m. dates ! m) ` {..<n}"
    by (simp add: keys_def bin_keys)
  then obtain m where m: "m < n" "dates ! m = D ! i" by auto
  then have "st ! m \<in> set bucket" by (auto simp: bucket_def)
  then have ne: "bucket \<noteq> []" by auto
  have "\<forall>x \<in> set bucket. int x < k"
    using assms(2,3) by (auto simp: bucket_def)
  then have mb: "0 \<le> mean bucket" "mean bucket \<le> real_of_int k - 1"
    using mean_bounds [OF ne] by auto
  have "st ! m \<in> set st" using m(1) assms(2) by simp
  then have kpos: "0 < real_of_int k" using assms(3) by fastforce
  have lo: "0 \<le> scores ! i" using mb(1) kpos by (simp add: val)
  have hi: "scores ! i \<le> (real_of_int k - 1) / real_of_int k"
    using mb(2) kpos by (simp add: val divide_right_mono)
  have "(real_of_int k - 1) / real_of_int k < 1" using kpos by simp
  then have "scores ! i \<noteq> 1" using hi by linarith
  then show ?thesis using len val lo hi by (simp add: bucket_def)
qed

lemma aggregate_example:
  "aggregate [0, 1, 1] [1999, 2000, 2000] 3 2 True = Inr ([2000], [1 / 2])"
  by (simp add: aggregate_def bin_by_date_def bin_step_def upt_0_3 mean_def Let_def)

text \<open>
  C6. When normalization is requested, the aggregation returns, for every date it
  reports, the arithmetic mean of the states that share the date, divided by \<open>k\<close>. With
  states in \<open>[0, k-1]\<close> the score lies between 0 and \<open>(k-1)/k\<close> and is never 1.
\<close>

theorem normalized_score_is_mean_over_k:
  assumes "n \<le> length dates"
    and "length st = n"
    and "\<forall>x \<in> set st. int x < k"
  shows "\<exists>D scores. aggregate st dates n k True = Inr (D, scores)
           \<and> length scores = length D
           \<and> (\<forall>i < length D.
                 scores ! i
                   = mean (map ((!) st) (filter (\<lambda>m. dates ! m = D ! i) [0..<n]))
                     / real_of_int k
                 \<and> 0 \<le> scores ! i
                 \<and> scores ! i \<le> (real_of_int k - 1) / real_of_int k
                 \<and> scores ! i \<noteq> 1)"
proof -
  have "k \<noteq> 0" if pos: "0 < n"
  proof -
    obtain x where "x \<in> set st" using pos assms(2) by (cases st) auto
    then have "int x < k" using assms(3) by simp
    then show ?thesis by auto
  qed
  then have "\<not> (k = 0 \<and> 0 < n)" by blast
  then obtain D scores where r: "aggregate st dates n k True = Inr (D, scores)"
    using assms(1) by (simp add: aggregate_def Let_def)
  have len: "length scores = length D"
    using r by (auto simp: aggregate_def Let_def split: if_splits)
  have pt: "scores ! i
                   = mean (map ((!) st) (filter (\<lambda>m. dates ! m = D ! i) [0..<n]))
                     / real_of_int k
                 \<and> 0 \<le> scores ! i
                 \<and> scores ! i \<le> (real_of_int k - 1) / real_of_int k
                 \<and> scores ! i \<noteq> 1" if "i < length D" for i
    using normalized_scores_at [OF r assms(2,3) that] by (elim conjE) (intro conjI; assumption)
  have "\<forall>i < length D.
                 scores ! i
                   = mean (map ((!) st) (filter (\<lambda>m. dates ! m = D ! i) [0..<n]))
                     / real_of_int k
                 \<and> 0 \<le> scores ! i
                 \<and> scores ! i \<le> (real_of_int k - 1) / real_of_int k
                 \<and> scores ! i \<noteq> 1"
    using pt by blast
  then show ?thesis using r len by blast
qed

theorem normalized_score_is_mean_over_k_witness:
  "aggregate [0, 1, 1] [1999, 2000, 2000] 3 2 True = Inr ([2000], [1 / 2])
   \<and> [1 / 2 :: real] ! 0
       = mean (map ((!) [0, 1, 1])
                 (filter (\<lambda>m. [1999, 2000, 2000 :: int] ! m = [2000] ! 0) [0..<3]))
         / real_of_int 2
   \<and> [1 / 2 :: real] ! 0 \<le> (real_of_int 2 - 1) / real_of_int 2"
proof -
  have h: "(3::nat) \<le> length [1999 :: int, 2000, 2000]" "length [0::nat, 1, 1] = 3"
    "\<forall>x \<in> set [0::nat, 1, 1]. int x < 2"
    by simp_all
  obtain D scores where r: "aggregate [0, 1, 1] [1999, 2000, 2000] 3 2 True = Inr (D, scores)"
    and a: "\<forall>i < length D.
                 scores ! i
                   = mean (map ((!) [0, 1, 1])
                       (filter (\<lambda>m. [1999, 2000, 2000] ! m = D ! i) [0..<3]))
                     / real_of_int 2
                 \<and> 0 \<le> scores ! i
                 \<and> scores ! i \<le> (real_of_int 2 - 1) / real_of_int 2
                 \<and> scores ! i \<noteq> 1"
    using normalized_score_is_mean_over_k [OF h] by blast
  have e: "D = [2000]" "scores = [1 / 2]"
    using r aggregate_example by simp_all
  show ?thesis
    using a [THEN spec, of 0] aggregate_example unfolding e by simp
qed

section \<open>The decoded states\<close>

lemma py_min_mem: "py_min xs = Inr m \<Longrightarrow> m \<in> set xs"
proof -
  have "foldl (\<lambda>m x. if vlt x m then x else m) a ys \<in> insert a (set ys)" for a ys
    by (induction ys arbitrary: a) auto
  from this [of "hd xs" "tl xs"] show "py_min xs = Inr m \<Longrightarrow> m \<in> set xs"
    by (cases xs) (auto simp: py_min_def split: if_splits)
qed

lemma takeWhile_neq_less: "m \<in> set xs \<Longrightarrow> length (takeWhile (\<lambda>x. x \<noteq> m) xs) < length xs"
  by (induction xs) auto

lemma argmin_less: "argmin xs = Inr i \<Longrightarrow> i < length xs"
  by (auto simp: argmin_def split: sum.splits dest!: py_min_mem intro: takeWhile_neq_less)

lemma collect_Inr:
  "collect rs = Inr vs \<Longrightarrow> length vs = length rs \<and> (\<forall>i < length rs. rs ! i = Inr (vs ! i))"
proof (induction rs arbitrary: vs)
  case Nil
  then show ?case by simp
next
  case (Cons r rs)
  then show ?case
    by (auto split: sum.splits simp: nth_Cons split: nat.splits)
qed

lemma forward_states:
  assumes "forward X s gamma k = Some st"
  shows "length st = length X \<and> (\<forall>x \<in> set st. int x < k)"
proof -
  let ?rs = "map (\<lambda>t. argmin (map (\<lambda>c. c ! t) (fill_table X s gamma k))) [0..<length X]"
  have c: "collect ?rs = Inr st"
    using assms by (auto simp: forward_def Let_def split: sum.splits)
  have len: "length st = length X" using collect_Inr [OF c] by simp
  have "int x < k" if xin: "x \<in> set st" for x
  proof -
    obtain t where t: "t < length X" "st ! t = x"
      using xin len by (auto simp: in_set_conv_nth)
    have "?rs ! t = Inr x" using collect_Inr [OF c] t by auto
    then have "argmin (map (\<lambda>c. c ! t) (fill_table X s gamma k)) = Inr x"
      using t(1) by simp
    then have "x < nat k" using argmin_less length_fill_table by fastforce
    then show ?thesis by simp
  qed
  then show ?thesis using len by blast
qed

lemma forward_no_state: "k \<le> 0 \<Longrightarrow> X \<noteq> [] \<Longrightarrow> forward X s gamma k = None"
proof (rule ccontr)
  assume k: "k \<le> 0" and X: "X \<noteq> []" and "forward X s gamma k \<noteq> None"
  then obtain st where st: "forward X s gamma k = Some st" by auto
  have "length st = length X" using forward_states [OF st] by simp
  then obtain x where "x \<in> set st" using X by (cases st) auto
  then have "int x < k" using forward_states [OF st] by simp
  then show False using k by simp
qed

lemma aggregate_total:
  assumes "n \<le> length dates" and "k \<noteq> 0"
  shows "\<exists>b. aggregate st dates n k nz = Inr b"
  using assms by (simp add: aggregate_def Let_def)

lemma feature_burstness_total:
  assumes "start_dates corpus dates = Inr d0"
    and "d0 \<noteq> []"
    and "the_distribution corpus fs f fd = Inr yv"
  shows "\<exists>r. feature_burstness corpus fs f k nz s gamma dates fd
              = Inr (r, d0 @ occ_dates (zip (fst yv) (snd yv)))"
proof -
  let ?ps = "zip (fst yv) (snd yv)"
  obtain G where G: "build_gaps ([1], d0) ?ps = Inr ([1] @ G, d0 @ occ_dates ?ps)"
    and lG: "length G = length (occ_dates ?ps)"
    using build_gaps_ok [OF assms(2)] by blast
  show ?thesis
  proof (cases "forward (decoder_input (1 # G)) s gamma k")
    case None
    then show ?thesis
      using assms(1,3) G by (simp add: feature_burstness_def)
  next
    case (Some st)
    have "k \<noteq> 0"
      using forward_no_state [of k "decoder_input (1 # G)" s gamma] Some
      by (auto simp: decoder_input_def)
    moreover have "length (1 # G) \<le> length (d0 @ occ_dates ?ps)"
      using lG assms(2) by (cases d0) auto
    ultimately obtain b where
      "aggregate st (d0 @ occ_dates ?ps) (length (1 # G)) k nz = Inr b"
      using aggregate_total by blast
    then show ?thesis
      using assms(1,3) G Some by (simp add: feature_burstness_def)
  qed
qed

text \<open>
  C5. For a distribution with counts that are not negative and the padding date \<open>pad\<close>,
  the loop builds the gap 1 followed by the gaps the specification describes, and the
  decoder is called on these gaps times 100.
\<close>

theorem gap_sequence_follows_spec:
  assumes "\<forall>p \<in> set (zip years values). 0 \<le> snd p"
  shows "build_gaps ([1], [pad]) (zip years values)
           = Inr (1 # spec_gaps pad (zip years values), pad # occ_dates (zip years values))
         \<and> decoder_input (1 # spec_gaps pad (zip years values))
             = 100 # map (\<lambda>x. x * 100) (spec_gaps pad (zip years values))
         \<and> feature_burstness corpus fs f k nz s gamma (Some [pad]) (Some (years, values))
             = (case forward (decoder_input (1 # spec_gaps pad (zip years values))) s gamma k of
                  None \<Rightarrow> Inr (None, pad # occ_dates (zip years values))
                | Some st \<Rightarrow>
                    bind_exn (aggregate st (pad # occ_dates (zip years values))
                                (Suc (length (spec_gaps pad (zip years values)))) k nz)
                      (\<lambda>b. Inr (Some b, pad # occ_dates (zip years values))))"
proof -
  have g: "build_gaps ([1], [pad]) (zip years values)
           = Inr (1 # spec_gaps pad (zip years values), pad # occ_dates (zip years values))"
    using build_gaps_spec [of "[pad]" "zip years values" "[1]"] assms by simp
  then show ?thesis
    by (auto simp: feature_burstness_def start_dates_def the_distribution_def decoder_input_def
          split: option.splits)
qed

theorem gap_sequence_follows_spec_witness:
  "build_gaps ([1], [1999]) (zip [2000, 2001, 2005, 2006] [1, 2, 3, 0])
     = Inr ([1, 1, 1 / 2, 1 / 2, 4, 1 / 2, 1 / 2],
            [1999, 2000, 2001, 2001, 2005, 2005, 2005])"
  using gap_sequence_follows_spec
          [of "[2000, 2001, 2005, 2006]" "[1, 2, 3, 0]" 1999 "None :: string corpus option"
              "''terms''" "''x''" 5 True "11/10" 1]
  by (simp add: numeral_2_eq_2 numeral_3_eq_3)

lemma mean_replicate_zero: "mean (map ((!) (replicate n 0)) (filter P [0..<n])) = 0"
proof -
  have "map ((!) (replicate n (0::nat))) (filter P [0..<n])
        = replicate (length (filter P [0..<n])) 0"
    by (rule replicate_eqI) auto
  then show ?thesis by (simp add: mean_def)
qed

lemma bin_keys_distinct: "distinct (fst (bin_by_date dates st n))"
proof (induction n)
  case 0
  then show ?case by (simp add: bin_by_date_def)
next
  case (Suc n)
  then show ?case by (simp add: bin_by_date_Suc bin_step_def Let_def)
qed

lemma sorted_keys:
  assumes "n \<le> length dates"
  shows "sort (fst (bin_by_date dates st n)) = sort (remdups (take n dates))"
proof (rule sorted_distinct_set_unique)
  show "sorted (sort (fst (bin_by_date dates st n)))" by simp
  show "distinct (sort (fst (bin_by_date dates st n)))" by (simp add: bin_keys_distinct)
  show "sorted (sort (remdups (take n dates)))" by simp
  show "distinct (sort (remdups (take n dates)))" by simp
  have "(\<lambda>i. dates ! i) ` {..<n} = set (take n dates)"
    using nth_image [OF assms] by (simp add: atLeast0LessThan)
  then show "set (sort (fst (bin_by_date dates st n))) = set (sort (remdups (take n dates)))"
    by (simp add: bin_keys)
qed

text \<open>
  C9. With \<open>k = 1\<close> the decoder returns state 0 at every position of any gap sequence, and
  \<^verbatim>\<open>feature_burstness\<close> with normalization returns the series of the feature, that is the
  sorted distinct dates of its gaps without the first, each with the score 0.
\<close>

theorem one_state_gives_zero_burst:
  assumes "start_dates corpus dates = Inr d0"
    and "d0 \<noteq> []"
    and "the_distribution corpus fs f fd = Inr yv"
  shows "forward X s gamma 1 = Some (replicate (length X) 0)
         \<and> feature_burstness corpus fs f 1 True s gamma dates fd
             = Inr (Some (tl (sort (remdups (take (Suc (length (occ_dates (zip (fst yv) (snd yv)))))
                                              (d0 @ occ_dates (zip (fst yv) (snd yv)))))),
                          replicate
                            (length (tl (sort (remdups
                               (take (Suc (length (occ_dates (zip (fst yv) (snd yv)))))
                                     (d0 @ occ_dates (zip (fst yv) (snd yv))))))))
                            0),
                    d0 @ occ_dates (zip (fst yv) (snd yv)))"
proof -
  let ?ps = "zip (fst yv) (snd yv)"
  obtain G where G: "build_gaps ([1], d0) ?ps = Inr ([1] @ G, d0 @ occ_dates ?ps)"
    and lG: "length G = length (occ_dates ?ps)"
    using build_gaps_ok [OF assms(2)] by blast
  let ?n = "Suc (length G)"
  let ?ds = "d0 @ occ_dates ?ps"
  let ?D = "tl (sort (fst (bin_by_date ?ds (replicate ?n 0) ?n)))"
  have le: "\<not> length ?ds < ?n" using lG assms(2) by (cases d0) auto
  have run: "feature_burstness corpus fs f 1 True s gamma dates fd
        = Inr (Some (?D, replicate (length ?D) 0), ?ds)"
    using assms(1,3) G le
    by (simp add: feature_burstness_def forward_one_state decoder_input_def aggregate_def
          bin_bucket mean_replicate_zero map_replicate_const Let_def
          del: replicate.simps upt_Suc)
  have "?n \<le> length ?ds" using le by simp
  then have "sort (fst (bin_by_date ?ds (replicate ?n 0) ?n)) = sort (remdups (take ?n ?ds))"
    by (rule sorted_keys)
  then have D: "?D = tl (sort (remdups (take (Suc (length (occ_dates ?ps))) ?ds)))"
    unfolding lG by (rule arg_cong)
  show ?thesis
    unfolding run D by (simp only: forward_one_state simp_thms)
qed

theorem one_state_gives_zero_burst_witness:
  "feature_burstness (None :: string corpus option) ''terms'' ''x'' 1 True (11/10) 1
     (Some [1999]) (Some ([2000, 2001, 2003], [1, 2, 0]))
   = Inr (Some ([2000, 2001], [0, 0]), [1999, 2000, 2001, 2001])"
  using one_state_gives_zero_burst
          [of "None :: string corpus option" "Some [1999]" "[1999]" "''terms''" "''x''"
              "Some ([2000, 2001, 2003], [1, 2, 0])" "([2000, 2001, 2003], [1, 2, 0])"
              "[]" "11/10" 1]
  by (simp add: start_dates_def the_distribution_def numeral_2_eq_2)

section \<open>The shared date list\<close>

lemma appended_dates_Cons:
  "appended_dates (fd # fds) = occ_dates (zip (fst fd) (snd fd)) @ appended_dates fds"
  by (simp add: appended_dates_def)

lemma appended_dates_Nil: "appended_dates [] = []"
  by (simp add: appended_dates_def)

lemma feature_burstness_given:
  assumes "dates \<noteq> []"
  shows "\<exists>r. feature_burstness None fs f k nz s gamma (Some dates) (Some fd)
              = Inr (r, dates @ occ_dates (zip (fst fd) (snd fd)))"
  using feature_burstness_total [of None "Some dates" dates fs f "Some fd" fd k nz s gamma] assms
  by (simp add: start_dates_def the_distribution_def)

lemma wrapper_loop_ok:
  "dates \<noteq> [] \<Longrightarrow>
   \<exists>B'. wrapper_loop fs k nz s gamma B dates ps
           = Inr (B', dates @ appended_dates (map snd ps))
       \<and> fst ` set B' = fst ` set B \<union> fst ` set ps
       \<and> (\<forall>x. x \<notin> fst ` set ps \<longrightarrow> map_of B' x = map_of B x)
       \<and> (distinct (map fst ps) \<longrightarrow>
            (\<forall>i < length ps. \<exists>r.
               feature_burstness None fs (fst (ps ! i)) k nz s gamma
                 (Some (dates @ appended_dates (map snd (take i ps)))) (Some (snd (ps ! i)))
                 = Inr (r, dates @ appended_dates (map snd (take (Suc i) ps)))
               \<and> map_of B' (fst (ps ! i)) = Some r))"
proof (induction ps arbitrary: B dates)
  case Nil
  then show ?case by (simp add: appended_dates_Nil)
next
  case (Cons p ps)
  let ?occ = "occ_dates (zip (fst (snd p)) (snd (snd p)))"
  obtain r0 where r0:
    "feature_burstness None fs (fst p) k nz s gamma (Some dates) (Some (snd p))
     = Inr (r0, dates @ ?occ)"
    using feature_burstness_given [OF Cons.prems, of fs "fst p" k nz s gamma "snd p"] by blast
  let ?B1 = "AList.update (fst p) r0 B"
  let ?d1 = "dates @ ?occ"
  have ne: "?d1 \<noteq> []" using Cons.prems by simp
  obtain B' where run: "wrapper_loop fs k nz s gamma ?B1 ?d1 ps
                        = Inr (B', ?d1 @ appended_dates (map snd ps))"
    and keys: "fst ` set B' = fst ` set ?B1 \<union> fst ` set ps"
    and frame: "\<forall>x. x \<notin> fst ` set ps \<longrightarrow> map_of B' x = map_of ?B1 x"
    and idx: "distinct (map fst ps) \<longrightarrow>
            (\<forall>i < length ps. \<exists>r.
               feature_burstness None fs (fst (ps ! i)) k nz s gamma
                 (Some (?d1 @ appended_dates (map snd (take i ps)))) (Some (snd (ps ! i)))
                 = Inr (r, ?d1 @ appended_dates (map snd (take (Suc i) ps)))
               \<and> map_of B' (fst (ps ! i)) = Some r)"
    using Cons.IH [OF ne, of ?B1] by blast
  have 1: "wrapper_loop fs k nz s gamma B dates (p # ps)
           = Inr (B', dates @ appended_dates (map snd (p # ps)))"
    using r0 run by (simp add: appended_dates_Cons)
  have 2: "fst ` set B' = fst ` set B \<union> fst ` set (p # ps)"
    using keys by (auto simp: dom_update)
  have 3: "\<forall>x. x \<notin> fst ` set (p # ps) \<longrightarrow> map_of B' x = map_of B x"
    using frame by (auto simp: update_conv')
  have 4: "\<exists>r. feature_burstness None fs (fst ((p # ps) ! i)) k nz s gamma
                 (Some (dates @ appended_dates (map snd (take i (p # ps)))))
                 (Some (snd ((p # ps) ! i)))
                 = Inr (r, dates @ appended_dates (map snd (take (Suc i) (p # ps))))
               \<and> map_of B' (fst ((p # ps) ! i)) = Some r"
    if d: "distinct (map fst (p # ps))" and i: "i < length (p # ps)" for i
  proof (cases i)
    case 0
    have "fst p \<notin> fst ` set ps" using d by auto
    then have "map_of B' (fst p) = Some r0"
      using frame by (simp add: update_conv')
    then show ?thesis
      using r0 0 by (simp add: appended_dates_Cons appended_dates_Nil)
  next
    case (Suc j)
    then have "j < length ps" using i by simp
    moreover have "distinct (map fst ps)" using d by simp
    ultimately show ?thesis
      using idx Suc by (simp add: appended_dates_Cons)
  qed
  show ?case using 1 2 3 4 by blast
qed

text \<open>
  C10. \<^verbatim>\<open>feature_burstness\<close> appends to the date list it is given, and the wrapper hands
  the same list to every call: the call for the feature at position \<open>i\<close> starts on the
  list grown by all earlier calls and leaves it grown by its own dates.
\<close>

theorem shared_dates_list_grows:
  assumes "dates \<noteq> []" and "length fds = length features" and "distinct features"
  shows "\<exists>B. feature_burstness_wrapper (nr, dates, fds, fs, features, k, nz, s, gamma)
               = Inr (B, dates @ appended_dates fds)
             \<and> (\<forall>i < length features. \<exists>r.
                  feature_burstness None fs (features ! i) k nz s gamma
                    (Some (dates @ appended_dates (take i fds))) (Some (fds ! i))
                    = Inr (r, dates @ appended_dates (take (Suc i) fds))
                  \<and> map_of B (features ! i) = Some r)"
proof -
  let ?ps = "zip features fds"
  have m: "map snd ?ps = fds" "map fst ?ps = features" using assms(2) by simp_all
  have t: "map snd (take i ?ps) = take i fds" for i
    using m(1) by (metis take_map)
  obtain B where run: "wrapper_loop fs k nz s gamma [] dates ?ps
                       = Inr (B, dates @ appended_dates (map snd ?ps))"
    and idx: "distinct (map fst ?ps) \<longrightarrow>
            (\<forall>i < length ?ps. \<exists>r.
               feature_burstness None fs (fst (?ps ! i)) k nz s gamma
                 (Some (dates @ appended_dates (map snd (take i ?ps)))) (Some (snd (?ps ! i)))
                 = Inr (r, dates @ appended_dates (map snd (take (Suc i) ?ps)))
               \<and> map_of B (fst (?ps ! i)) = Some r)"
    using wrapper_loop_ok [OF assms(1), of fs k nz s gamma "[]" ?ps] by blast
  have "feature_burstness_wrapper (nr, dates, fds, fs, features, k, nz, s, gamma)
        = Inr (B, dates @ appended_dates fds)"
    using run m(1) by (simp add: feature_burstness_wrapper_def)
  moreover have "\<exists>r. feature_burstness None fs (features ! i) k nz s gamma
                    (Some (dates @ appended_dates (take i fds))) (Some (fds ! i))
                    = Inr (r, dates @ appended_dates (take (Suc i) fds))
                  \<and> map_of B (features ! i) = Some r" if "i < length features" for i
    using idx that assms(2,3) m(2) t by (simp del: take_zip)
  ultimately show ?thesis by blast
qed

theorem shared_dates_list_grows_witness:
  "\<exists>B r. feature_burstness_wrapper
            (0, [1999], [([2000], [1]), ([2000], [1])], ''terms'', [''a'', ''b''], 5, True,
             11/10, 1)
            = Inr (B, [1999, 2000, 2000])
        \<and> feature_burstness None ''terms'' ''b'' 5 True (11/10) 1
              (Some [1999, 2000]) (Some ([2000], [1]))
            = Inr (r, [1999, 2000, 2000])
        \<and> map_of B ''b'' = Some r"
proof -
  have h: "[1999::int] \<noteq> []"
    "length [([2000::int], [1::int]), ([2000], [1])] = length [''a'', ''b'']"
    "distinct [''a'', ''b'']"
    by simp_all
  obtain B where B: "feature_burstness_wrapper
            (0, [1999], [([2000], [1]), ([2000], [1])], ''terms'', [''a'', ''b''], 5, True,
             11/10, 1)
            = Inr (B, [1999] @ appended_dates [([2000], [1]), ([2000], [1])])"
    and idx: "\<forall>i < length [''a'', ''b'']. \<exists>r.
                  feature_burstness None ''terms'' ([''a'', ''b''] ! i) 5 True (11/10) 1
                    (Some ([1999] @ appended_dates (take i [([2000], [1]), ([2000], [1])])))
                    (Some ([([2000], [1]), ([2000], [1])] ! i))
                    = Inr (r, [1999] @ appended_dates
                                         (take (Suc i) [([2000], [1]), ([2000], [1])]))
                  \<and> map_of B ([''a'', ''b''] ! i) = Some r"
    using shared_dates_list_grows [OF h, of 0 "''terms''" 5 True "11/10" 1] by blast
  have "\<exists>r.
          feature_burstness None ''terms'' ([''a'', ''b''] ! Suc 0) 5 True (11/10) 1
            (Some ([1999] @ appended_dates (take (Suc 0) [([2000], [1]), ([2000], [1])])))
            (Some ([([2000], [1]), ([2000], [1])] ! Suc 0))
            = Inr (r, [1999] @ appended_dates
                                 (take (Suc (Suc 0)) [([2000], [1]), ([2000], [1])]))
          \<and> map_of B ([''a'', ''b''] ! Suc 0) = Some r"
    using idx [THEN spec, of "Suc 0"] by simp
  then show ?thesis
    using B by (simp add: appended_dates_def)
qed

section \<open>Results of burstness on the example corpus\<close>

lemma example_build:
  "feature_burstness (Some example_corpus) fs f k nz s gamma None None
   = (case forward [100, 100] s gamma k of
        None \<Rightarrow> Inr (None, [1999, 2000])
      | Some st \<Rightarrow> bind_exn (aggregate st [1999, 2000] 2 k nz)
                     (\<lambda>b. Inr (Some b, [1999, 2000])))"
  by (auto simp: feature_burstness_def start_dates_def the_distribution_def example_corpus_def
        gap_step_def decoder_input_def numeral_2_eq_2 split: option.splits)

text \<open>
  C4. With \<open>k = 0\<close> no state sequence can be extracted, and the result maps the feature
  to \<^verbatim>\<open>None\<close>: the feature is a key of the result.
\<close>

theorem failed_decode_is_stored_as_None:
  "burstness example_corpus ''terms'' [''x''] 0 1 True (11/10) 1 = Inr [(''x'', None)]"
  by (simp add: burstness_def example_build forward_no_state)

lemma many_workers_empty:
  "burstness example_corpus ''terms'' [''x''] 5 2 True (11/10) 1 = Inr []"
  by (simp add: burstness_def example_corpus_def upt_0_3 chunk_def
        feature_burstness_wrapper_def dict_update_def)

lemma one_worker_key:
  "\<exists>r. burstness example_corpus ''terms'' [''x''] 5 1 True (11/10) 1 = Inr [(''x'', r)]"
proof -
  obtain r d where
    "feature_burstness (Some example_corpus) ''terms'' ''x'' 5 True (11/10) 1 None None
     = Inr (r, d)"
    using feature_burstness_total
            [of "Some example_corpus" None "[1999]" "''terms''" "''x''" None "([2000], [1])"
                5 True "11/10" 1]
    by (auto simp: start_dates_def the_distribution_def example_corpus_def)
  then show ?thesis by (simp add: burstness_def)
qed

text \<open>
  C1. For one feature, two workers return the empty result (every chunk has length
  \<open>floor(1/2) = 0\<close>), while one worker returns a result for the feature.
\<close>

theorem worker_count_changes_result:
  "burstness example_corpus ''terms'' [''x''] 5 2 True (11/10) 1 = Inr []
   \<and> (\<exists>r. burstness example_corpus ''terms'' [''x''] 5 1 True (11/10) 1 = Inr [(''x'', r)])"
  using many_workers_empty one_worker_key by simp

section \<open>Sigma of a slice\<close>

lemma map_of_fold_update:
  "distinct (map fst ps) \<Longrightarrow>
   map_of (fold (\<lambda>p. AList.update (fst p) (snd p)) ps al) k
   = (case map_of ps k of Some v \<Rightarrow> Some v | None \<Rightarrow> map_of al k)"
proof (induction ps arbitrary: al)
  case Nil
  then show ?case by simp
next
  case (Cons p ps)
  have "fst p \<notin> fst ` set ps" using Cons.prems by auto
  then have "map_of ps (fst p) = None" by (simp add: map_of_eq_None_iff)
  then show ?case
    using Cons by (auto simp: update_conv' split: option.splits)
qed

lemma burst_dict_lookup:
  assumes "distinct dates" and "length dates = length scores"
  shows "\<exists>bd. burst_dict (Some (dates, scores)) = Inr bd
              \<and> map_of bd = map_of (zip dates scores)"
proof -
  have "distinct (map fst (zip dates scores))" using assms by simp
  then have "map_of (fold (\<lambda>p. AList.update (fst p) (snd p)) (zip dates scores) []) k
             = map_of (zip dates scores) k" for k
    by (simp add: map_of_fold_update split: option.splits)
  then show ?thesis by (auto simp: burst_dict_def)
qed

lemma map_of_zip_index:
  assumes "distinct dates" and "length dates = length scores"
  shows "map_of (zip dates scores) key = Some b
         \<longleftrightarrow> (\<exists>i < length dates. dates ! i = key \<and> scores ! i = b)"
proof
  assume "map_of (zip dates scores) key = Some b"
  then have "(key, b) \<in> set (zip dates scores)" by (rule map_of_SomeD)
  then show "\<exists>i < length dates. dates ! i = key \<and> scores ! i = b"
    using assms(2) by (auto simp: in_set_zip)
next
  assume "\<exists>i < length dates. dates ! i = key \<and> scores ! i = b"
  then obtain i where "i < length dates" "dates ! i = key" "scores ! i = b" by blast
  then show "map_of (zip dates scores) key = Some b"
    using map_of_zip_nth [OF assms(2) assms(1), of i] assms(2) by simp
qed

lemma hits_unique_value:
  "wf_item G item \<Longrightarrow> hits G key graph item n v \<Longrightarrow> hits G key graph item n v' \<Longrightarrow> v = v'"
  by (auto simp: wf_item_def hits_def nth_eq_iff_index_eq)

lemma sigma_step_ok:
  assumes "wf_item G item"
  shows "\<exists>sg'. sigma_step G key graph item sg = Inr sg'
               \<and> (\<forall>n v. map_of sg' n = Some v \<longleftrightarrow>
                     (hits G key graph item n v
                      \<or> ((\<forall>v'. \<not> hits G key graph item n v') \<and> map_of sg n = Some v)))"
proof -
  obtain dates scores m where it: "snd item = Some (dates, scores)"
    and d: "distinct dates" and l: "length dates = length scores"
    and lk: "node_lookup G (fst item) = Some m"
    using assms by (auto simp: wf_item_def)
  obtain bd where bd: "burst_dict (Some (dates, scores)) = Inr bd"
    and mo: "map_of bd = map_of (zip dates scores)"
    using burst_dict_lookup [OF d l] by blast
  have h: "hits G key graph item n v \<longleftrightarrow>
           (n = m \<and> m \<in> set (g_nodes graph)
            \<and> (\<exists>b. map_of bd key = Some b \<and> v = (betweenness graph m + 1) powr b - 1))" for n v
    using it lk by (auto simp: hits_def mo map_of_zip_index [OF d l])
  show ?thesis
  proof (cases "m \<in> set (g_nodes graph) \<and> key \<in> dom (map_of bd)")
    case True
    then obtain b where b: "map_of bd key = Some b" by auto
    have "sigma_step G key graph item sg
          = Inr (AList.update m ((betweenness graph m + 1) powr b - 1) sg)"
      using True b it lk bd by (simp add: sigma_step_def)
    then show ?thesis
      using True b by (auto simp: h update_conv')
  next
    case False
    then have "sigma_step G key graph item sg = Inr sg"
      using it lk bd by (auto simp: sigma_step_def)
    moreover have "\<not> hits G key graph item n v" for n v
      using False by (auto simp: h)
    ultimately show ?thesis by simp
  qed
qed

lemma hits_other_item:
  assumes "distinct (map fst (it # items))"
    and "inj_on (node_lookup G) (fst ` set (it # items))"
    and "hits G key graph it n v" and "item \<in> set items" and "hits G key graph item n v'"
  shows False
proof -
  have "node_lookup G (fst it) = node_lookup G (fst item)"
    using assms(3,5) by (auto simp: hits_def)
  then have "fst it = fst item"
    using assms(2,4) by (auto dest: inj_onD)
  then show False using assms(1,4) by auto
qed

lemma sigma_slice_ok:
  "\<forall>item \<in> set items. wf_item G item \<Longrightarrow> distinct (map fst items) \<Longrightarrow>
   inj_on (node_lookup G) (fst ` set items) \<Longrightarrow>
   \<exists>sg'. sigma_slice G key graph sg items = Inr sg'
        \<and> (\<forall>n v. map_of sg' n = Some v \<longleftrightarrow>
              ((\<exists>item \<in> set items. hits G key graph item n v)
               \<or> ((\<forall>item \<in> set items. \<forall>v'. \<not> hits G key graph item n v')
                   \<and> map_of sg n = Some v)))"
proof (induction items arbitrary: sg)
  case Nil
  then show ?case by simp
next
  case (Cons it items)
  obtain sg1 where s1: "sigma_step G key graph it sg = Inr sg1"
    and c1: "\<forall>n v. map_of sg1 n = Some v \<longleftrightarrow>
                     (hits G key graph it n v
                      \<or> ((\<forall>v'. \<not> hits G key graph it n v') \<and> map_of sg n = Some v))"
    using sigma_step_ok [of G it key graph sg] Cons.prems(1) by auto
  have p: "\<forall>item \<in> set items. wf_item G item" "distinct (map fst items)"
    "inj_on (node_lookup G) (fst ` set items)"
    using Cons.prems by (auto simp: inj_on_def)
  obtain sg' where s2: "sigma_slice G key graph sg1 items = Inr sg'"
    and c2: "\<forall>n v. map_of sg' n = Some v \<longleftrightarrow>
              ((\<exists>item \<in> set items. hits G key graph item n v)
               \<or> ((\<forall>item \<in> set items. \<forall>v'. \<not> hits G key graph item n v')
                   \<and> map_of sg1 n = Some v))"
    using Cons.IH [OF p, of sg1] by blast
  have run: "sigma_slice G key graph sg (it # items) = Inr sg'"
    using s1 s2 by simp
  have other: "\<not> hits G key graph item n v'"
    if "hits G key graph it n v" "item \<in> set items" for n v item v'
    using hits_other_item [OF Cons.prems(2,3) that(1,2)] by blast
  have "map_of sg' n = Some v \<longleftrightarrow>
          ((\<exists>item \<in> set (it # items). hits G key graph item n v)
           \<or> ((\<forall>item \<in> set (it # items). \<forall>v'. \<not> hits G key graph item n v')
               \<and> map_of sg n = Some v))" for n v
  proof
    assume "map_of sg' n = Some v"
    then show "(\<exists>item \<in> set (it # items). hits G key graph item n v)
           \<or> ((\<forall>item \<in> set (it # items). \<forall>v'. \<not> hits G key graph item n v')
               \<and> map_of sg n = Some v)"
      using c1 c2 by auto
  next
    assume a: "(\<exists>item \<in> set (it # items). hits G key graph item n v)
           \<or> ((\<forall>item \<in> set (it # items). \<forall>v'. \<not> hits G key graph item n v')
               \<and> map_of sg n = Some v)"
    show "map_of sg' n = Some v"
    proof (cases "hits G key graph it n v")
      case True
      then have "\<forall>item \<in> set items. \<forall>v'. \<not> hits G key graph item n v'"
        using other by blast
      moreover have "map_of sg1 n = Some v" using c1 True by blast
      ultimately show ?thesis using c2 by blast
    next
      case False
      show ?thesis
      proof (cases "\<exists>item \<in> set items. hits G key graph item n v")
        case True
        then show ?thesis using c2 by blast
      next
        case nohit: False
        then have all: "\<forall>item \<in> set (it # items). \<forall>v'. \<not> hits G key graph item n v'"
          and sgn: "map_of sg n = Some v"
          using a False by auto
        then have "map_of sg1 n = Some v" using c1 by simp
        then show ?thesis using c2 all by simp
      qed
    qed
  qed
  then show ?case using run by blast
qed

lemma sigma_slices_ok:
  "\<forall>item \<in> set B. wf_item G item \<Longrightarrow> distinct (map fst B) \<Longrightarrow>
   inj_on (node_lookup G) (fst ` set B) \<Longrightarrow> distinct (map fst kgs) \<Longrightarrow>
   \<exists>S'. sigma_slices G B S kgs = Inr S'
       \<and> (\<forall>key graph. (key, graph) \<in> set kgs \<longrightarrow>
             (\<exists>sg. sigma_slice G key graph [] B = Inr sg \<and> map_of S' key = Some sg))
       \<and> (\<forall>key. key \<notin> fst ` set kgs \<longrightarrow> map_of S' key = map_of S key)"
proof (induction kgs arbitrary: S)
  case Nil
  then show ?case by simp
next
  case (Cons kg kgs)
  obtain sg where sg: "sigma_slice G (fst kg) (snd kg) [] B = Inr sg"
    using sigma_slice_ok [OF Cons.prems(1-3), of "fst kg" "snd kg" "[]"] by blast
  have d: "distinct (map fst kgs)" and nk: "fst kg \<notin> fst ` set kgs"
    using Cons.prems(4) by auto
  obtain S' where run: "sigma_slices G B (AList.update (fst kg) sg S) kgs = Inr S'"
    and c: "\<forall>key graph. (key, graph) \<in> set kgs \<longrightarrow>
             (\<exists>sg. sigma_slice G key graph [] B = Inr sg \<and> map_of S' key = Some sg)"
    and fr: "\<forall>key. key \<notin> fst ` set kgs \<longrightarrow>
               map_of S' key = map_of (AList.update (fst kg) sg S) key"
    using Cons.IH [OF Cons.prems(1-3) d, of "AList.update (fst kg) sg S"] by blast
  have 1: "sigma_slices G B S (kg # kgs) = Inr S'" using sg run by simp
  have "map_of S' (fst kg) = Some sg" using fr nk by (simp add: update_conv')
  then have 2: "\<forall>key graph. (key, graph) \<in> set (kg # kgs) \<longrightarrow>
             (\<exists>sg. sigma_slice G key graph [] B = Inr sg \<and> map_of S' key = Some sg)"
    using c sg by auto
  have 3: "\<forall>key. key \<notin> fst ` set (kg # kgs) \<longrightarrow> map_of S' key = map_of S key"
    using fr by (auto simp: update_conv')
  show ?case using 1 2 3 by blast
qed

text \<open>
  C7. For a burst map of well-formed items with distinct features, \<^verbatim>\<open>sigma\<close> raises no
  error, and in the result of a slice a node has a value exactly when it is in the graph
  of the slice and the key of the slice is a date of its burst series; the value is
  (centrality + 1) to the power of the burst score of that date, minus 1.
\<close>

theorem sigma_assigns_present_nodes:
  assumes "\<forall>item \<in> set B. wf_item G item"
    and "distinct (map fst B)"
    and "inj_on (node_lookup G) (fst ` set B)"
    and "B \<noteq> []"
    and "distinct (map fst (gc_items G))"
    and "(key, graph) \<in> set (gc_items G)"
  shows "\<exists>Sigma sg. sigma G c fs (Some B) k workers nz s gamma = Inr Sigma
           \<and> map_of Sigma key = Some sg
           \<and> (\<forall>n v. map_of sg n = Some v \<longleftrightarrow>
                 (n \<in> set (g_nodes graph)
                  \<and> (\<exists>f dates scores i.
                        (f, Some (dates, scores)) \<in> set B \<and> node_lookup G f = Some n
                        \<and> i < length dates \<and> dates ! i = key
                        \<and> v = (betweenness graph n + 1) powr (scores ! i) - 1)))"
proof -
  obtain Sigma where run: "sigma_slices G B [] (gc_items G) = Inr Sigma"
    and c: "\<forall>key graph. (key, graph) \<in> set (gc_items G) \<longrightarrow>
             (\<exists>sg. sigma_slice G key graph [] B = Inr sg \<and> map_of Sigma key = Some sg)"
    using sigma_slices_ok [OF assms(1-3,5), of "[]"] by blast
  obtain sg where sg: "sigma_slice G key graph [] B = Inr sg"
    and m: "map_of Sigma key = Some sg"
    using c assms(6) by blast
  obtain sg' where sg': "sigma_slice G key graph [] B = Inr sg'"
    and ch: "\<forall>n v. map_of sg' n = Some v \<longleftrightarrow>
              ((\<exists>item \<in> set B. hits G key graph item n v)
               \<or> ((\<forall>item \<in> set B. \<forall>v'. \<not> hits G key graph item n v')
                   \<and> map_of [] n = Some v))"
    using sigma_slice_ok [OF assms(1-3), of key graph "[]"] by blast
  have eq: "sg' = sg" using sg sg' by simp
  have "(\<exists>item \<in> set B. hits G key graph item n v) \<longleftrightarrow>
        (n \<in> set (g_nodes graph)
         \<and> (\<exists>f dates scores i.
               (f, Some (dates, scores)) \<in> set B \<and> node_lookup G f = Some n
               \<and> i < length dates \<and> dates ! i = key
               \<and> v = (betweenness graph n + 1) powr (scores ! i) - 1))" for n v
  proof -
    have "(\<exists>item \<in> set B. hits G key graph item n v)
          \<longleftrightarrow> (\<exists>f b. (f, b) \<in> set B \<and> hits G key graph (f, b) n v)"
      by auto
    also have "\<dots> \<longleftrightarrow> (n \<in> set (g_nodes graph)
         \<and> (\<exists>f dates scores i.
               (f, Some (dates, scores)) \<in> set B \<and> node_lookup G f = Some n
               \<and> i < length dates \<and> dates ! i = key
               \<and> v = (betweenness graph n + 1) powr (scores ! i) - 1))"
      unfolding hits_def fst_conv snd_conv by blast
    finally show ?thesis .
  qed
  then have "\<forall>n v. map_of sg n = Some v \<longleftrightarrow>
                 (n \<in> set (g_nodes graph)
                  \<and> (\<exists>f dates scores i.
                        (f, Some (dates, scores)) \<in> set B \<and> node_lookup G f = Some n
                        \<and> i < length dates \<and> dates ! i = key
                        \<and> v = (betweenness graph n + 1) powr (scores ! i) - 1))"
    using ch eq by simp
  moreover have "sigma G c fs (Some B) k workers nz s gamma = Inr Sigma"
    using run assms(4) by (simp add: sigma_def)
  ultimately show ?thesis using m by blast
qed

theorem sigma_assigns_present_nodes_witness:
  "\<exists>Sigma sg.
     sigma example_graphs example_corpus ''terms'' (Some example_bursts) 5 5 True (11/10) 1
       = Inr Sigma
     \<and> map_of Sigma 2001 = Some sg
     \<and> map_of sg 0 = Some ((1 / 5 + 1) powr (1 / 2) - 1)"
proof -
  let ?graph = "\<lparr>g_nodes = [0], betweenness = (\<lambda>n. 1 / 5 :: real)\<rparr>"
  have h: "\<forall>item \<in> set example_bursts. wf_item example_graphs item"
    "distinct (map fst example_bursts)"
    "inj_on (node_lookup example_graphs) (fst ` set example_bursts)"
    "example_bursts \<noteq> []"
    "distinct (map fst (gc_items example_graphs))"
    "(2001, ?graph) \<in> set (gc_items example_graphs)"
    by (simp_all add: example_bursts_def example_graphs_def wf_item_def)
  obtain Sigma sg where run:
    "sigma example_graphs example_corpus ''terms'' (Some example_bursts) 5 5 True (11/10) 1
       = Inr Sigma"
    and m: "map_of Sigma 2001 = Some sg"
    and ch: "\<forall>n v. map_of sg n = Some v \<longleftrightarrow>
                 (n \<in> set (g_nodes ?graph)
                  \<and> (\<exists>f dates scores i.
                        (f, Some (dates, scores)) \<in> set example_bursts
                        \<and> node_lookup example_graphs f = Some n
                        \<and> i < length dates \<and> dates ! i = 2001
                        \<and> v = (betweenness ?graph n + 1) powr (scores ! i) - 1))"
    using sigma_assigns_present_nodes
            [OF h, of example_corpus "''terms''" 5 5 True "11/10" 1]
    by blast
  have "\<exists>f dates scores i.
          (f, Some (dates, scores)) \<in> set example_bursts
          \<and> node_lookup example_graphs f = Some 0
          \<and> i < length dates \<and> dates ! i = 2001
          \<and> (1 / 5 + 1) powr (1 / 2) - 1 = (betweenness ?graph 0 + 1) powr (scores ! i) - 1"
    by (rule exI [of _ "''x''"], rule exI [of _ "[2000, 2001]"], rule exI [of _ "[0, 1 / 2]"],
        rule exI [of _ 1])
       (simp add: example_bursts_def example_graphs_def)
  then have "map_of sg 0 = Some ((1 / 5 + 1) powr (1 / 2) - 1)"
    using ch by simp
  then show ?thesis using run m by blast
qed

section \<open>The partition of the features\<close>

lemma collect_map_ok:
  "\<forall>x \<in> set xs. \<exists>v. f x = Inr v \<and> P x v \<Longrightarrow>
   \<exists>vs. collect (map f xs) = Inr vs \<and> list_all2 P xs vs"
proof (induction xs)
  case Nil
  then show ?case by simp
next
  case (Cons x xs)
  then obtain v vs where "f x = Inr v" "P x v" "collect (map f xs) = Inr vs" "list_all2 P xs vs"
    by auto
  then show ?case by auto
qed

lemma dict_update_keys: "fst ` set (dict_update B T) = fst ` set B \<union> fst ` set T"
  unfolding dict_update_def
  by (induction T arbitrary: B) (auto simp: dom_update)

lemma fold_dict_update_keys:
  "list_all2 (\<lambda>x tmp. fst ` set (fst tmp) = K x) xs Bs \<Longrightarrow>
   fst ` set (fold (\<lambda>tmp B. dict_update B (fst tmp)) Bs B0) = fst ` set B0 \<union> (\<Union>x \<in> set xs. K x)"
proof (induction xs Bs arbitrary: B0 rule: list_all2_induct)
  case Nil
  then show ?case by simp
next
  case (Cons x tmp xs Bs)
  then show ?case by (auto simp: dict_update_keys)
qed

lemma fst_set_zip: "length ys = length xs \<Longrightarrow> fst ` set (zip xs ys) = set xs"
  by (induction ys xs rule: list_induct2) auto

lemma wrapper_loop_keys:
  "dates \<noteq> [] \<Longrightarrow>
   \<exists>B' d. wrapper_loop fs k nz s gamma B dates ps = Inr (B', d)
          \<and> fst ` set B' = fst ` set B \<union> fst ` set ps"
proof (induction ps arbitrary: B dates)
  case Nil
  then show ?case by simp
next
  case (Cons p ps)
  obtain r0 where r0:
    "feature_burstness None fs (fst p) k nz s gamma (Some dates) (Some (snd p))
     = Inr (r0, dates @ occ_dates (zip (fst (snd p)) (snd (snd p))))"
    using feature_burstness_given [OF Cons.prems, of fs "fst p" k nz s gamma "snd p"] by blast
  have ne: "dates @ occ_dates (zip (fst (snd p)) (snd (snd p))) \<noteq> []"
    using Cons.prems by simp
  obtain B' d where
    run: "wrapper_loop fs k nz s gamma (AList.update (fst p) r0 B)
            (dates @ occ_dates (zip (fst (snd p)) (snd (snd p)))) ps = Inr (B', d)"
    and keys: "fst ` set B' = fst ` set (AList.update (fst p) r0 B) \<union> fst ` set ps"
    using Cons.IH [OF ne, of "AList.update (fst p) r0 B"] by blast
  have "wrapper_loop fs k nz s gamma B dates (p # ps) = Inr (B', d)"
    using r0 run by simp
  moreover have "fst ` set B' = fst ` set B \<union> fst ` set (p # ps)"
    unfolding keys dom_update by auto
  ultimately show ?case by blast
qed

lemma wrapper_keys:
  assumes "dates \<noteq> []" and "length fds = length ch"
  shows "\<exists>r. feature_burstness_wrapper (nr, dates, fds, fs, ch, k, nz, s, gamma) = Inr r
             \<and> fst ` set (fst r) = set ch"
proof -
  obtain B' d where run: "wrapper_loop fs k nz s gamma [] dates (zip ch fds) = Inr (B', d)"
    and keys: "fst ` set B' = fst ` set ([] :: ('a \<times> burst option) list)
                              \<union> fst ` set (zip ch fds)"
    using wrapper_loop_keys [OF assms(1), of fs k nz s gamma "[]" "zip ch fds"] by blast
  have z: "fst ` set (zip ch fds) = set ch" using assms(2) by (rule fst_set_zip)
  have kk: "fst ` set B' = set ch" unfolding keys z by simp
  have w: "feature_burstness_wrapper (nr, dates, fds, fs, ch, k, nz, s, gamma) = Inr (B', d)"
    unfolding feature_burstness_wrapper_def prod.case by (rule run)
  have "fst ` set (fst (B', d)) = set ch"
    unfolding fst_conv by (rule kk)
  with w show ?thesis by blast
qed

lemma concat_chunks:
  "concat (map (chunk xs l) [0..<m]) = take (m * l) xs"
proof (induction m)
  case 0
  then show ?case by simp
next
  case (Suc m)
  have "take (m * l + l) xs = take (m * l) xs @ take l (drop (m * l) xs)"
    by (rule take_add)
  then show ?case
    using Suc by (simp add: chunk_def add.commute)
qed

lemma chunks_cover:
  "concat (chunks features workers)
   = take ((workers + 1) * (length features div workers)) features"
  unfolding chunks_def by (rule concat_chunks)

lemma burstness_fan_out_keys:
  assumes "2 \<le> workers" and "date_index c \<noteq> []" and "features \<noteq> []"
  shows "\<exists>B. burstness c fs features k workers nz s gamma = Inr B
             \<and> fst ` set B = set (concat (chunks features (nat workers)))"
proof -
  define l where "l = length features div nat workers"
  define dates where "dates = [Min (set (date_index c)) - 1]"
  define param where "param = (\<lambda>i. (i, dates, map (feature_distribution c fs) (chunk features l i),
                     fs, chunk features l i, k, nz, 11/10 :: real, 1 :: real))"
  define idx where "idx = [0..<nat workers + 1]"
  have one: "\<exists>r. feature_burstness_wrapper (param i) = Inr r
                 \<and> fst ` set (fst r) = set (chunk features l i)" for i
    unfolding param_def
    by (rule wrapper_keys) (simp_all add: dates_def)
  then have "\<forall>i \<in> set idx. \<exists>r. feature_burstness_wrapper (param i) = Inr r
                          \<and> fst ` set (fst r) = set (chunk features l i)"
    by simp
  then obtain Bs where Bs: "collect (map (\<lambda>i. feature_burstness_wrapper (param i)) idx) = Inr Bs"
    and all: "list_all2 (\<lambda>i r. fst ` set (fst r) = set (chunk features l i)) idx Bs"
    using collect_map_ok
            [of idx "\<lambda>i. feature_burstness_wrapper (param i)"
                "\<lambda>i r. fst ` set (fst r) = set (chunk features l i)"]
    by blast
  have keys: "fst ` set (fold (\<lambda>tmp B. dict_update B (fst tmp)) Bs [])
              = (\<Union>i \<in> set idx. set (chunk features l i))"
    using fold_dict_update_keys [OF all, of "[]"] by simp
  have w: "workers \<noteq> 1" "workers \<noteq> 0" "\<not> workers < 0" using assms(1) by simp_all
  have "burstness c fs features k workers nz s gamma
        = bind_exn (collect (map feature_burstness_wrapper (map param idx)))
            (\<lambda>Bs. Inr (fold (\<lambda>tmp_B B. dict_update B (fst tmp_B)) Bs []))"
    unfolding burstness_def Let_def param_def idx_def l_def dates_def
    using w assms(2,3) by (simp only: if_False if_True refl)
  also have "\<dots> = Inr (fold (\<lambda>tmp B. dict_update B (fst tmp)) Bs [])"
    using Bs by (simp add: comp_def)
  finally have run: "burstness c fs features k workers nz s gamma
        = Inr (fold (\<lambda>tmp B. dict_update B (fst tmp)) Bs [])" .
  have "(\<Union>i \<in> set idx. set (chunk features l i))
                 = set (concat (chunks features (nat workers)))"
    unfolding chunks_def idx_def l_def by auto
  then show ?thesis using keys run by (intro exI conjI) simp_all
qed

lemma five_chunks:
  "chunks [''a'', ''b'', ''c'', ''d'', ''e''] 3 = [[''a''], [''b''], [''c''], [''d'']]"
  by code_simp

text \<open>
  C2. Five features over three workers are cut into four chunks of \<open>floor(5/3) = 1\<close>
  feature: the fifth feature is in no chunk and is not a key of the merged result.
\<close>

theorem fan_out_drops_a_feature:
  "chunks [''a'', ''b'', ''c'', ''d'', ''e''] 3 = [[''a''], [''b''], [''c''], [''d'']]
   \<and> (\<exists>B. burstness example_corpus ''terms'' [''a'', ''b'', ''c'', ''d'', ''e''] 5 3 True
               (11/10) 1 = Inr B
          \<and> fst ` set B = {''a'', ''b'', ''c'', ''d''}
          \<and> map_of B ''e'' = None)"
proof -
  have h: "(2::int) \<le> 3" "date_index example_corpus \<noteq> []"
    "[''a'', ''b'', ''c'', ''d'', ''e''] \<noteq> []"
    by (simp_all add: example_corpus_def)
  obtain B where B: "burstness example_corpus ''terms'' [''a'', ''b'', ''c'', ''d'', ''e''] 5 3
                       True (11/10) 1 = Inr B"
    and keys: "fst ` set B = set (concat (chunks [''a'', ''b'', ''c'', ''d'', ''e''] (nat 3)))"
    using burstness_fan_out_keys [OF h, of "''terms''" 5 True "11/10" 1] by blast
  have n3: "nat 3 = 3" by simp
  have kk: "fst ` set B = {''a'', ''b'', ''c'', ''d''}"
    unfolding keys n3 five_chunks by auto
  have "''e'' \<notin> fst ` set B" unfolding kk by simp
  then have e: "map_of B ''e'' = None" by (simp add: map_of_eq_None_iff)
  show ?thesis
  proof (intro conjI exI)
    show "chunks [''a'', ''b'', ''c'', ''d'', ''e''] 3 = [[''a''], [''b''], [''c''], [''d'']]"
      by (rule five_chunks)
    show "burstness example_corpus ''terms'' [''a'', ''b'', ''c'', ''d'', ''e''] 5 3 True
            (11/10) 1 = Inr B"
      by (rule B)
    show "fst ` set B = {''a'', ''b'', ''c'', ''d''}" by (rule kk)
    show "map_of B ''e'' = None" by (rule e)
  qed
qed

end
